theory Spec2Isabelle
  imports Complex_Main "HOL-Library.Word"
begin

section \<open>Data model\<close>

text \<open>
  The program is \<^verbatim>\<open>src/main.py\<close>. Python integers are unbounded and are modelled as
  \<open>int\<close>; a \<^verbatim>\<open>bytes\<close> object is a list of 8-bit words; exceptions are values of
  \<open>exc\<close>, and a function that can raise returns \<open>exc + 'a\<close>.
\<close>

type_synonym byte = "8 word"

datatype exc =
    ValueError
  | ZeroDivisionError
  | OverflowError
  | FileNotFoundError
  | OSError
  | EOFError
  | KeyboardInterrupt
  | SystemExit int

subsection \<open>The random source\<close>

text \<open>
  \<^verbatim>\<open>random.randint(a, b)\<close> reads the interpreter's global generator. The generator is
  modelled as an infinite tape of raw draws and a cursor into it; a call consumes one
  draw and maps it into \<open>[a, b]\<close>. Every value of \<open>[a, b]\<close> is the result for some
  tape. The library raises \<^verbatim>\<open>ValueError\<close> on an empty range (\<open>b < a\<close>); the callers
  below write that branch out where the range is not constant.
\<close>

type_synonym tape = "nat \<Rightarrow> nat"

definition randint :: "tape \<Rightarrow> nat \<Rightarrow> int \<Rightarrow> int \<Rightarrow> int \<times> nat" where
  "randint tp cur a b = (a + int (tp cur mod nat (b - a + 1)), Suc cur)"

section \<open>Byte mutator\<close>

text \<open>
  \<^verbatim>\<open>generate_random_byte_not_equal_to\<close> (lines 31-37): draw a byte until the one-byte
  object differs from \<open>original\<close>. The loop has no bound, so the model is a partial
  function: \<open>None\<close> is the run that never returns.
\<close>

partial_function (option) generate_random_byte_not_equal_to ::
  "tape \<Rightarrow> nat \<Rightarrow> byte list \<Rightarrow> (byte list \<times> nat) option" where
  "generate_random_byte_not_equal_to tp cur original =
     (case randint tp cur 0 255 of
        (r, cur') \<Rightarrow>
          (if [word_of_int r] \<noteq> original then Some ([word_of_int r], cur')
           else generate_random_byte_not_equal_to tp cur' original))"

text \<open>
  The comprehension of lines 177 and 196,
  \<^verbatim>\<open>b''.join([generate_random_byte_not_equal_to(bytes([b])) for b in original_bytes])\<close>:
  one call per byte, left to right, the pieces concatenated.
\<close>

fun mutate_bytes :: "tape \<Rightarrow> nat \<Rightarrow> byte list \<Rightarrow> (byte list \<times> nat) option" where
  "mutate_bytes tp cur [] = Some ([], cur)"
| "mutate_bytes tp cur (b # bs) =
     (case generate_random_byte_not_equal_to tp cur [b] of
        None \<Rightarrow> None
      | Some (nb, cur1) \<Rightarrow>
          (case mutate_bytes tp cur1 bs of
             None \<Rightarrow> None
           | Some (rest, cur2) \<Rightarrow> Some (nb @ rest, cur2)))"

text \<open>
  A tape is fair when its bytes never settle on one value: after every position and for
  every byte value there is a later draw with another value. A uniform source is fair
  with probability one.
\<close>

definition fair :: "tape \<Rightarrow> bool" where
  "fair tp = (\<forall>i v. \<exists>j. i \<le> j \<and> (word_of_int (int (tp j mod 256)) :: byte) \<noteq> v)"

section \<open>Corruption planner\<close>

text \<open>
  \<^verbatim>\<open>protect_region_check\<close> (lines 91-109). The window length is the constant 1024 of
  line 102; the function has no step-size parameter. \<open>available_range\<close> is the local
  variable of line 103.
\<close>

definition available_range :: "int \<Rightarrow> int \<Rightarrow> int" where
  "available_range file_size pos = min (pos + 1024) (file_size - 1024) - pos"

definition protect_region_check ::
  "tape \<Rightarrow> nat \<Rightarrow> int \<Rightarrow> int \<Rightarrow> int \<Rightarrow> exc + ((int \<times> int) \<times> nat)" where
  "protect_region_check tp cur file_size pos destroy_count =
     (let safe_start = 1024; safe_end = file_size - 1024 in
      if safe_end \<le> safe_start then Inl ValueError
      else if pos < safe_start \<or> pos \<ge> safe_end then Inr ((0, 0), cur)
      else if available_range file_size pos \<le> 0 then Inr ((0, 0), cur)
      else
        (let destroy_here = min destroy_count (available_range file_size pos) in
         if destroy_here > 0 then
           (if available_range file_size pos - destroy_here < 0 then Inl ValueError
            else
              (case randint tp cur 0 (available_range file_size pos - destroy_here) of
                 (r, cur') \<Rightarrow> Inr ((pos + r, destroy_here), cur')))
         else Inr ((pos, destroy_here), cur)))"

section \<open>Strings and the terminal\<close>

text \<open>
  A string is a list of code points below 256. \<open>isspace\<close> is the whitespace
  \<^verbatim>\<open>str.strip()\<close> removes, \<open>isdigit\<close> is \<^verbatim>\<open>str.isdigit\<close> (the decimal digits and
  the superscripts one, two and three) and \<open>isdecimal\<close> the digits \<^verbatim>\<open>0\<close> to
  \<^verbatim>\<open>9\<close>, the only ones \<^verbatim>\<open>int\<close> and \<^verbatim>\<open>float\<close> read.
\<close>

definition isspace :: "char \<Rightarrow> bool" where
  "isspace c = ((of_char c :: nat) \<in> {9, 10, 11, 12, 13, 28, 29, 30, 31, 32, 133, 160})"

definition isdecimal :: "char \<Rightarrow> bool" where
  "isdecimal c = (48 \<le> (of_char c :: nat) \<and> (of_char c :: nat) \<le> 57)"

definition isdigit :: "char \<Rightarrow> bool" where
  "isdigit c = (isdecimal c \<or> (of_char c :: nat) \<in> {178, 179, 185})"

definition digit_value :: "char \<Rightarrow> nat" where
  "digit_value c = (of_char c :: nat) - 48"

text \<open>
  \<^verbatim>\<open>str.upper\<close> and \<^verbatim>\<open>str.lower\<close>. The letters that have another case are the 26
  of ASCII and those from \<open>0xE0\<close> to \<open>0xFE\<close> (but \<open>0xF7\<close>) with their capitals 32
  below. The capital of \<open>0xDF\<close> is the two letters \<^verbatim>\<open>SS\<close>. The capitals of
  \<open>0xB5\<close> and \<open>0xFF\<close> lie beyond 255; nothing else is mapped to them, they are no
  digits, and the code only compares characters, so the two code points stand for their
  own capitals.
\<close>

definition lowercase_letters :: string where
  "lowercase_letters = ''abcdefghijklmnopqrstuvwxyz'' @
     [CHR 0xE0, CHR 0xE1, CHR 0xE2, CHR 0xE3, CHR 0xE4, CHR 0xE5, CHR 0xE6, CHR 0xE7,
      CHR 0xE8, CHR 0xE9, CHR 0xEA, CHR 0xEB, CHR 0xEC, CHR 0xED, CHR 0xEE, CHR 0xEF,
      CHR 0xF0, CHR 0xF1, CHR 0xF2, CHR 0xF3, CHR 0xF4, CHR 0xF5, CHR 0xF6, CHR 0xF8,
      CHR 0xF9, CHR 0xFA, CHR 0xFB, CHR 0xFC, CHR 0xFD, CHR 0xFE]"

definition uppercase_letters :: string where
  "uppercase_letters = ''ABCDEFGHIJKLMNOPQRSTUVWXYZ'' @
     [CHR 0xC0, CHR 0xC1, CHR 0xC2, CHR 0xC3, CHR 0xC4, CHR 0xC5, CHR 0xC6, CHR 0xC7,
      CHR 0xC8, CHR 0xC9, CHR 0xCA, CHR 0xCB, CHR 0xCC, CHR 0xCD, CHR 0xCE, CHR 0xCF,
      CHR 0xD0, CHR 0xD1, CHR 0xD2, CHR 0xD3, CHR 0xD4, CHR 0xD5, CHR 0xD6, CHR 0xD8,
      CHR 0xD9, CHR 0xDA, CHR 0xDB, CHR 0xDC, CHR 0xDD, CHR 0xDE]"

definition upper_char :: "char \<Rightarrow> string" where
  "upper_char c =
     (if c = CHR 0xDF then ''SS''
      else
        (case map_of (zip lowercase_letters uppercase_letters) c of
           Some u \<Rightarrow> [u]
         | None \<Rightarrow> [c]))"

definition lower_char :: "char \<Rightarrow> char" where
  "lower_char c =
     (case map_of (zip uppercase_letters lowercase_letters) c of
        Some l \<Rightarrow> l
      | None \<Rightarrow> c)"

definition py_upper :: "string \<Rightarrow> string" where
  "py_upper s = concat (map upper_char s)"

definition py_lower :: "string \<Rightarrow> string" where
  "py_lower s = map lower_char s"

definition strip_chars :: "(char \<Rightarrow> bool) \<Rightarrow> string \<Rightarrow> string" where
  "strip_chars p s = rev (dropWhile p (rev (dropWhile p s)))"

definition py_strip :: "string \<Rightarrow> string" where
  "py_strip s = strip_chars isspace s"

text \<open>\<^verbatim>\<open>s.index(c)\<close> for a character that occurs in \<open>s\<close>: the first position.\<close>

definition str_index :: "string \<Rightarrow> char \<Rightarrow> nat" where
  "str_index s c = length (takeWhile (\<lambda>x. x \<noteq> c) s)"

text \<open>
  What \<^verbatim>\<open>input()\<close> returns is read from a script of replies: a line, or an interrupt
  (Ctrl-C at the prompt). At the end of the script the input is closed and
  \<^verbatim>\<open>input()\<close> raises \<^verbatim>\<open>EOFError\<close>.
\<close>

datatype reply = Line string | CtrlC

text \<open>\<^verbatim>\<open>ask_yes_no\<close> (lines 60-84); it asks again until the answer is understood.\<close>

fun ask_yes_no :: "bool option \<Rightarrow> reply list \<Rightarrow> (exc + bool) \<times> reply list" where
  "ask_yes_no dflt [] = (Inl EOFError, [])"
| "ask_yes_no dflt (CtrlC # rs) = (Inl KeyboardInterrupt, rs)"
| "ask_yes_no dflt (Line l # rs) =
     (let resp = py_lower (py_strip l) in
      if resp = [] then
        (case dflt of
           Some d \<Rightarrow> (Inr d, rs)
         | None \<Rightarrow> ask_yes_no dflt rs)
      else if resp = ''y'' \<or> resp = ''yes'' then (Inr True, rs)
      else if resp = ''n'' \<or> resp = ''no'' then (Inr False, rs)
      else ask_yes_no dflt rs)"

text \<open>\<^verbatim>\<open>confirm_action\<close> (lines 86-89).\<close>

definition confirm_action :: "reply list \<Rightarrow> (exc + bool) \<times> reply list" where
  "confirm_action rs = ask_yes_no (Some True) rs"

section \<open>File walker\<close>

text \<open>
  The target file is its content; \<open>backup\<close> is the content of the \<^verbatim>\<open>.bak\<close> file
  when there is one. \<open>cursor\<close> is the position on the random tape, \<open>stdin\<close> the
  replies not yet read, and \<open>steps\<close> records each iteration of the loop of lines
  165-182 and 186-199: the window start, the planned offset and the planned count.
\<close>

record world =
  target :: "byte list"
  backup :: "byte list option"
  stdin :: "reply list"
  cursor :: nat
  steps :: "(int \<times> int \<times> int) list"

text \<open>
  What the operating system does to a run: what the path names (nothing, something that
  is not a regular file, or a regular file), whether \<^verbatim>\<open>shutil.copy2\<close> and
  \<^verbatim>\<open>open\<close> fail, and for every step whether its I/O goes through, the read fails, the
  write fails after a number of bytes reached the file, or an interrupt arrives.
\<close>

datatype io_event = IoOk | ReadFails | WriteFails nat | Interrupted

datatype path_kind = Missing | NotAFile | RegularFile

record env =
  rnd :: tape
  kind :: path_kind
  copy_fails :: bool
  open_fails :: bool
  io :: "nat \<Rightarrow> io_event"

text \<open>
  \<^verbatim>\<open>f.seek(pos); f.read(n)\<close> and \<^verbatim>\<open>f.seek(pos); f.write(data)\<close> on a file opened
  \<^verbatim>\<open>'r+b'\<close>: a read stops at the end of the file, a write replaces bytes in place and
  extends the file (zero-filled) when it runs past the end. Both are called with
  \<open>pos \<ge> 1024\<close> and \<open>n > 0\<close> only.
\<close>

definition f_read :: "byte list \<Rightarrow> int \<Rightarrow> int \<Rightarrow> byte list" where
  "f_read content pos n = take (nat n) (drop (nat pos) content)"

definition f_write :: "byte list \<Rightarrow> int \<Rightarrow> byte list \<Rightarrow> byte list" where
  "f_write content pos new_bytes =
     take (nat pos) content @ replicate (nat pos - length content) 0 @ new_bytes
       @ drop (nat pos + length new_bytes) content"

text \<open>
  The loop over \<^verbatim>\<open>range(total_steps)\<close>. Both branches of line 150 (with and without
  the progress bar) do the same to the file; this is their common body.
\<close>

fun walk_steps ::
  "env \<Rightarrow> int \<Rightarrow> int \<Rightarrow> int \<Rightarrow> nat list \<Rightarrow> world \<Rightarrow> ((exc + unit) \<times> world) option" where
  "walk_steps ev file_size step_bytes destroy_bytes [] w = Some (Inr (), w)"
| "walk_steps ev file_size step_bytes destroy_bytes (step_idx # later) w =
     (let current_pos = 1024 + int step_idx * step_bytes in
      case protect_region_check (rnd ev) (cursor w) file_size current_pos destroy_bytes of
        Inl e \<Rightarrow> Some (Inl e, w)
      | Inr ((actual_pos, num_to_corrupt), cur1) \<Rightarrow>
          (let w1 = w\<lparr>cursor := cur1,
                       steps := steps w @ [(current_pos, actual_pos, num_to_corrupt)]\<rparr> in
           if num_to_corrupt \<le> 0 then
             walk_steps ev file_size step_bytes destroy_bytes later w1
           else
             (case io ev step_idx of
                Interrupted \<Rightarrow> Some (Inl KeyboardInterrupt, w1)
              | ReadFails \<Rightarrow> Some (Inl OSError, w1)
              | WriteFails k \<Rightarrow>
                  (case mutate_bytes (rnd ev) cur1 (f_read (target w1) actual_pos num_to_corrupt) of
                     None \<Rightarrow> None
                   | Some (new_bytes, cur2) \<Rightarrow>
                       Some (Inl OSError,
                         w1\<lparr>cursor := cur2,
                            target := f_write (target w1) actual_pos (take k new_bytes)\<rparr>))
              | IoOk \<Rightarrow>
                  (case mutate_bytes (rnd ev) cur1 (f_read (target w1) actual_pos num_to_corrupt) of
                     None \<Rightarrow> None
                   | Some (new_bytes, cur2) \<Rightarrow>
                       walk_steps ev file_size step_bytes destroy_bytes later
                         (w1\<lparr>cursor := cur2,
                             target := f_write (target w1) actual_pos new_bytes\<rparr>)))))"

text \<open>\<^verbatim>\<open>total_steps\<close> of lines 127-129, for a step that is not zero.\<close>

definition total_steps :: "int \<Rightarrow> int \<Rightarrow> int" where
  "total_steps file_size step_bytes =
     (file_size - 2048) div step_bytes
       + (if (file_size - 2048) mod step_bytes \<noteq> 0 then 1 else 0)"

text \<open>Lines 148-208: open the file and walk it; an exception is reported and raised again.\<close>

definition walk_file ::
  "env \<Rightarrow> int \<Rightarrow> int \<Rightarrow> int \<Rightarrow> world \<Rightarrow> ((exc + unit) \<times> world) option" where
  "walk_file ev file_size step_bytes destroy_bytes w =
     (if open_fails ev then Some (Inl OSError, w)
      else walk_steps ev file_size step_bytes destroy_bytes
             [0..<nat (total_steps file_size step_bytes)] w)"

text \<open>
  \<^verbatim>\<open>corrupt_file\<close> (lines 115-208), called on a regular file that exists. The size
  is read once; the division of line 127 comes before the backup of lines 133-146.
\<close>

definition corrupt_file ::
  "env \<Rightarrow> int \<Rightarrow> int \<Rightarrow> bool \<Rightarrow> world \<Rightarrow> ((exc + unit) \<times> world) option" where
  "corrupt_file ev step_kb destroy_bytes make_backup w =
     (let file_size = int (length (target w)); step_bytes = step_kb * 1024 in
      if step_bytes = 0 then Some (Inl ZeroDivisionError, w)
      else if make_backup then
        (if copy_fails ev then
           (case ask_yes_no (Some False) (stdin w) of
              (Inl e, rs) \<Rightarrow> Some (Inl e, w\<lparr>stdin := rs\<rparr>)
            | (Inr True, rs) \<Rightarrow>
                walk_file ev file_size step_bytes destroy_bytes (w\<lparr>stdin := rs\<rparr>)
            | (Inr False, rs) \<Rightarrow> Some (Inr (), w\<lparr>stdin := rs\<rparr>))
         else walk_file ev file_size step_bytes destroy_bytes (w\<lparr>backup := Some (target w)\<rparr>))
      else walk_file ev file_size step_bytes destroy_bytes w)"

section \<open>Size literals\<close>

subsection \<open>Floating point\<close>

text \<open>
  \<^verbatim>\<open>float(num)\<close> is called on a string of digits and dots only (line 45). It
  raises \<^verbatim>\<open>ValueError\<close> unless the string is decimal digits with at most one dot and
  at least one digit. Its value is the IEEE double nearest to the decimal, ties to even,
  or infinity. A finite double
  is written \<open>Finite m e\<close> for \<open>m * 2 ^ e\<close>. \<open>bits n\<close> is the bit length of
  \<open>n\<close>, \<open>ilog2 n d\<close> the exponent \<open>e\<close> with \<open>2 ^ e \<le> n / d < 2 ^ (e + 1)\<close>, and
  \<open>rne_div n d\<close> the integer nearest to \<open>n / d\<close>, ties to even.
\<close>

datatype pyfloat = Finite nat int | Infinity

fun bits :: "nat \<Rightarrow> nat" where
  "bits n = (if n = 0 then 0 else Suc (bits (n div 2)))"

declare bits.simps [simp del]

definition ilog2 :: "nat \<Rightarrow> nat \<Rightarrow> int" where
  "ilog2 n d =
     (let k = int (bits n) - int (bits d) in
      if (if 0 \<le> k then d * 2 ^ nat k \<le> n else d \<le> n * 2 ^ nat (- k)) then k else k - 1)"

definition rne_div :: "nat \<Rightarrow> nat \<Rightarrow> nat" where
  "rne_div n d =
     (let q = n div d; r = n mod d in
      if 2 * r < d then q
      else if d < 2 * r then q + 1
      else if even q then q
      else q + 1)"

definition to_double :: "nat \<Rightarrow> nat \<Rightarrow> pyfloat" where
  "to_double n d =
     (if n = 0 then Finite 0 0
      else
        (let e = ilog2 n d;
             u = max (e - 52) (- 1074);
             m = (if 0 \<le> u then rne_div n (d * 2 ^ nat u) else rne_div (n * 2 ^ nat (- u)) d)
         in if 0 \<le> u \<and> 2 ^ 1024 \<le> m * 2 ^ nat u then Infinity else Finite m u))"

definition decimal :: "string \<Rightarrow> nat" where
  "decimal ds = foldl (\<lambda>acc c. acc * 10 + digit_value c) 0 ds"

definition py_float :: "string \<Rightarrow> exc + pyfloat" where
  "py_float num =
     (let ip = takeWhile isdecimal num; rest = dropWhile isdecimal num in
      if rest = [] then (if ip = [] then Inl ValueError else Inr (to_double (decimal ip) 1))
      else if hd rest = CHR ''.'' \<and> list_all isdecimal (tl rest) \<and> (ip \<noteq> [] \<or> tl rest \<noteq> [])
        then Inr (to_double (decimal (ip @ tl rest)) (10 ^ length (tl rest)))
      else Inl ValueError)"

text \<open>
  \<^verbatim>\<open>num_f * 1024\<close> is exact unless it overflows to infinity; \<^verbatim>\<open>int(x)\<close> truncates
  and raises \<^verbatim>\<open>OverflowError\<close> on infinity.
\<close>

definition float_times_1024 :: "pyfloat \<Rightarrow> pyfloat" where
  "float_times_1024 x =
     (case x of
        Infinity \<Rightarrow> Infinity
      | Finite m e \<Rightarrow>
          if 0 \<le> e + 10 \<and> 2 ^ 1024 \<le> m * 2 ^ nat (e + 10) then Infinity
          else Finite m (e + 10))"

definition int_of_float :: "pyfloat \<Rightarrow> exc + int" where
  "int_of_float x =
     (case x of
        Infinity \<Rightarrow> Inl OverflowError
      | Finite m e \<Rightarrow>
          Inr (if 0 \<le> e then int (m * 2 ^ nat e) else int (m div 2 ^ nat (- e))))"

subsection \<open>\<^verbatim>\<open>parse_size_str\<close>\<close>

text \<open>
  The loop of lines 44-49 over the characters of \<open>s\<close>: digits and dots are collected
  into \<open>num\<close>; the first other character \<open>c\<close> ends the loop with the unit
  \<^verbatim>\<open>s[s.index(c):].upper()\<close>. Without such a character the unit stays \<^verbatim>\<open>'KB'\<close>.
\<close>

fun scan_size :: "string \<Rightarrow> string \<Rightarrow> string \<Rightarrow> string \<times> string" where
  "scan_size s [] num = (num, ''KB'')"
| "scan_size s (c # cs) num =
     (if isdigit c \<or> c = CHR ''.'' then scan_size s cs (num @ [c])
      else (num, py_upper (drop (str_index s c) s)))"

definition parse_size_str :: "string \<Rightarrow> exc + int" where
  "parse_size_str s0 =
     (let s = py_upper (py_strip s0) in
      case scan_size s s [] of
        (num0, unit) \<Rightarrow>
          (let num = (if num0 = [] then ''1'' else num0) in
           case py_float num of
             Inl e \<Rightarrow> Inl e
           | Inr num_f \<Rightarrow>
               if unit = ''KB'' then int_of_float (float_times_1024 num_f)
               else if unit = ''B'' then int_of_float num_f
               else Inl ValueError))"

text \<open>The unit the loop of \<^verbatim>\<open>parse_size_str\<close> ends with.\<close>

definition size_unit :: "string \<Rightarrow> string" where
  "size_unit s0 = (let s = py_upper (py_strip s0) in snd (scan_size s s []))"

subsection \<open>\<^verbatim>\<open>int(s)\<close> on a string\<close>

text \<open>
  The whitespace \<^verbatim>\<open>int\<close> skips at both ends is not that of \<^verbatim>\<open>strip\<close>: the
  separators \<open>0x1C\<close> to \<open>0x1F\<close> are not skipped. A sign may come first, then
  decimal digits, where single underscores may stand between digits. More than 4300
  digits (the default limit of the interpreter) and anything else raise
  \<^verbatim>\<open>ValueError\<close>.
\<close>

definition int_space :: "char \<Rightarrow> bool" where
  "int_space c = ((of_char c :: nat) \<in> {9, 10, 11, 12, 13, 32, 133, 160})"

fun int_digits :: "string \<Rightarrow> bool \<Rightarrow> nat \<Rightarrow> nat option" where
  "int_digits [] prev acc = (if prev then Some acc else None)"
| "int_digits (c # cs) prev acc =
     (if isdecimal c then int_digits cs True (acc * 10 + digit_value c)
      else if c = CHR ''_'' \<and> prev then int_digits cs False acc
      else None)"

definition int_body :: "string \<Rightarrow> nat option" where
  "int_body ds =
     (if 4300 < length (filter isdecimal ds) then None else int_digits ds False 0)"

definition py_int :: "string \<Rightarrow> exc + int" where
  "py_int s0 =
     (case strip_chars int_space s0 of
        [] \<Rightarrow> Inl ValueError
      | c # cs \<Rightarrow>
          if c = CHR ''-'' then
            (case int_body cs of None \<Rightarrow> Inl ValueError | Some n \<Rightarrow> Inr (- int n))
          else if c = CHR ''+'' then
            (case int_body cs of None \<Rightarrow> Inl ValueError | Some n \<Rightarrow> Inr (int n))
          else
            (case int_body (c # cs) of None \<Rightarrow> Inl ValueError | Some n \<Rightarrow> Inr (int n)))"

section \<open>The two front ends\<close>

text \<open>
  The step of lines 308-318 and 233-243: first \<^verbatim>\<open>int\<close>, and when that raises
  \<^verbatim>\<open>ValueError\<close> or gives a value that is not positive, \<^verbatim>\<open>parse_size_str\<close> floor
  divided by 1024. \<open>Inl\<close> is the exception of the inner \<^verbatim>\<open>try\<close>. The result of the
  second attempt is not checked for being positive.
\<close>

definition size_to_kb :: "string \<Rightarrow> exc + int" where
  "size_to_kb step = (case parse_size_str step of Inl e \<Rightarrow> Inl e | Inr b \<Rightarrow> Inr (b div 1024))"

definition resolve_step :: "string \<Rightarrow> exc + int" where
  "resolve_step step =
     (case py_int step of
        Inr n \<Rightarrow> if n \<le> 0 then size_to_kb step else Inr n
      | Inl e \<Rightarrow> size_to_kb step)"

text \<open>
  \<^verbatim>\<open>cli_main\<close> (lines 291-346) after \<^verbatim>\<open>parse_args\<close> has accepted the command line.
  \<^verbatim>\<open>sys.exit(n)\<close> raises \<^verbatim>\<open>SystemExit\<close>.
\<close>

record args =
  arg_step :: string
  arg_destroy :: int
  arg_no_backup :: bool

definition cli_main :: "env \<Rightarrow> args \<Rightarrow> world \<Rightarrow> ((exc + unit) \<times> world) option" where
  "cli_main ev a w =
     (if kind ev = Missing then Some (Inl (SystemExit 1), w)
      else if kind ev \<noteq> RegularFile then Some (Inl (SystemExit 1), w)
      else
        (case resolve_step (arg_step a) of
           Inl e \<Rightarrow> Some (Inl (SystemExit 1), w)
         | Inr step_kb \<Rightarrow>
             if arg_destroy a \<le> 0 then Some (Inl (SystemExit 1), w)
             else
               (case (if arg_no_backup a then ask_yes_no (Some False) (stdin w)
                      else (Inr True, stdin w)) of
                  (Inl e, rs) \<Rightarrow> Some (Inl e, w\<lparr>stdin := rs\<rparr>)
                | (Inr False, rs) \<Rightarrow> Some (Inl (SystemExit 0), w\<lparr>stdin := rs\<rparr>)
                | (Inr True, rs) \<Rightarrow>
                    (case confirm_action rs of
                       (Inl e, rs') \<Rightarrow> Some (Inl e, w\<lparr>stdin := rs'\<rparr>)
                     | (Inr False, rs') \<Rightarrow> Some (Inl (SystemExit 0), w\<lparr>stdin := rs'\<rparr>)
                     | (Inr True, rs') \<Rightarrow>
                         corrupt_file ev step_kb (arg_destroy a) (\<not> arg_no_backup a)
                           (w\<lparr>stdin := rs'\<rparr>)))))"

text \<open>\<^verbatim>\<open>input()\<close>, and the characters \<^verbatim>\<open>strip('\'" ')\<close> removes from the path.\<close>

fun py_input :: "reply list \<Rightarrow> (exc + string) \<times> reply list" where
  "py_input [] = (Inl EOFError, [])"
| "py_input (CtrlC # rs) = (Inl KeyboardInterrupt, rs)"
| "py_input (Line l # rs) = (Inr l, rs)"

definition is_quote_or_space :: "char \<Rightarrow> bool" where
  "is_quote_or_space c = (c = CHR 0x27 \<or> c = CHR 0x22 \<or> c = CHR 0x20)"

text \<open>
  The body of the \<^verbatim>\<open>try\<close> of \<^verbatim>\<open>interactive_mode\<close> (lines 218-281): the path, the
  step, the destroy count and the backup question are read in turn, then the summary is
  confirmed.
\<close>

definition interactive_step :: "string \<Rightarrow> exc + int" where
  "interactive_step step_input =
     (if step_input = [] then Inr 1
      else (case resolve_step step_input of Inl e \<Rightarrow> Inl ValueError | Inr k \<Rightarrow> Inr k))"

definition interactive_destroy :: "string \<Rightarrow> exc + int" where
  "interactive_destroy destroy_input =
     (if destroy_input = [] then Inr 4
      else
        (case py_int destroy_input of
           Inl e \<Rightarrow> Inl ValueError
         | Inr n \<Rightarrow> if n \<le> 0 then Inl ValueError else Inr n))"

definition interactive_body :: "env \<Rightarrow> world \<Rightarrow> ((exc + unit) \<times> world) option" where
  "interactive_body ev w =
     (case py_input (stdin w) of
        (Inl e, r1) \<Rightarrow> Some (Inl e, w\<lparr>stdin := r1\<rparr>)
      | (Inr path_input, r1) \<Rightarrow>
          if strip_chars is_quote_or_space path_input = [] then Some (Inl ValueError, w\<lparr>stdin := r1\<rparr>)
          else if kind ev = Missing then Some (Inl FileNotFoundError, w\<lparr>stdin := r1\<rparr>)
          else if kind ev \<noteq> RegularFile then Some (Inl ValueError, w\<lparr>stdin := r1\<rparr>)
          else
            (case py_input r1 of
               (Inl e, r2) \<Rightarrow> Some (Inl e, w\<lparr>stdin := r2\<rparr>)
             | (Inr step_input, r2) \<Rightarrow>
                 (case interactive_step (py_strip step_input) of
                    Inl e \<Rightarrow> Some (Inl e, w\<lparr>stdin := r2\<rparr>)
                  | Inr step_kb \<Rightarrow>
                      (case py_input r2 of
                         (Inl e, r3) \<Rightarrow> Some (Inl e, w\<lparr>stdin := r3\<rparr>)
                       | (Inr destroy_input, r3) \<Rightarrow>
                           (case interactive_destroy (py_strip destroy_input) of
                              Inl e \<Rightarrow> Some (Inl e, w\<lparr>stdin := r3\<rparr>)
                            | Inr destroy_bytes \<Rightarrow>
                                (case py_input r3 of
                                   (Inl e, r4) \<Rightarrow> Some (Inl e, w\<lparr>stdin := r4\<rparr>)
                                 | (Inr disable_backup_input, r4) \<Rightarrow>
                                     (let answer = py_lower (py_strip disable_backup_input);
                                          make_backup = \<not> (answer = ''y'' \<or> answer = ''yes'') in
                                      case confirm_action r4 of
                                        (Inl e, r5) \<Rightarrow> Some (Inl e, w\<lparr>stdin := r5\<rparr>)
                                      | (Inr False, r5) \<Rightarrow> Some (Inr (), w\<lparr>stdin := r5\<rparr>)
                                      | (Inr True, r5) \<Rightarrow>
                                          corrupt_file ev step_kb destroy_bytes make_backup
                                            (w\<lparr>stdin := r5\<rparr>))))))))"

text \<open>
  \<^verbatim>\<open>except Exception\<close> catches every exception of the model but
  \<^verbatim>\<open>KeyboardInterrupt\<close> and \<^verbatim>\<open>SystemExit\<close>. \<^verbatim>\<open>interactive_mode\<close> turns what it
  catches into \<^verbatim>\<open>sys.exit(1)\<close> (lines 283-285).
\<close>

fun is_Exception :: "exc \<Rightarrow> bool" where
  "is_Exception KeyboardInterrupt = False"
| "is_Exception (SystemExit n) = False"
| "is_Exception e = True"

definition interactive_mode :: "env \<Rightarrow> world \<Rightarrow> ((exc + unit) \<times> world) option" where
  "interactive_mode ev w =
     (case interactive_body ev w of
        None \<Rightarrow> None
      | Some (Inr u, w') \<Rightarrow> Some (Inr u, w')
      | Some (Inl e, w') \<Rightarrow>
          if is_Exception e then Some (Inl (SystemExit 1), w') else Some (Inl e, w'))"

text \<open>
  The entry point (lines 352-365). The command line selects the front end;
  \<open>CliRejected\<close> is a command line that \<^verbatim>\<open>parse_args\<close> refuses with
  \<^verbatim>\<open>sys.exit(2)\<close>. The result is the exit status of the process: 0 when the front
  end returns, the argument of \<^verbatim>\<open>sys.exit\<close>, and 1 from both handlers.
\<close>

datatype invocation = Cli args | CliRejected | Interactive

definition front_end :: "env \<Rightarrow> invocation \<Rightarrow> world \<Rightarrow> ((exc + unit) \<times> world) option" where
  "front_end ev how w =
     (case how of
        Cli a \<Rightarrow> cli_main ev a w
      | CliRejected \<Rightarrow> Some (Inl (SystemExit 2), w)
      | Interactive \<Rightarrow> interactive_mode ev w)"

fun exit_status :: "exc + unit \<Rightarrow> int" where
  "exit_status (Inr u) = 0"
| "exit_status (Inl (SystemExit n)) = n"
| "exit_status (Inl KeyboardInterrupt) = 1"
| "exit_status (Inl e) = 1"

definition main_program :: "env \<Rightarrow> invocation \<Rightarrow> world \<Rightarrow> (int \<times> world) option" where
  "main_program ev how w =
     (case front_end ev how w of
        None \<Rightarrow> None
      | Some (r, w') \<Rightarrow> Some (exit_status r, w'))"

section \<open>Frame predicates and sample inputs\<close>

text \<open>
  Two file contents agree on the protected regions when they have the same length and
  the same bytes in the first and in the last 1024 positions.
\<close>

definition protected_equal :: "byte list \<Rightarrow> byte list \<Rightarrow> bool" where
  "protected_equal c c' =
     (length c' = length c \<and>
      (\<forall>i<length c. i < 1024 \<or> length c - 1024 \<le> i \<longrightarrow> c' ! i = c ! i))"

text \<open>
  The one way \<^verbatim>\<open>corrupt_file\<close> returns normally without walking: the backup failed
  and the user answered no at line 141.
\<close>

definition backup_declined :: "env \<Rightarrow> bool \<Rightarrow> world \<Rightarrow> bool" where
  "backup_declined ev make_backup w =
     (make_backup \<and> copy_fails ev \<and> fst (ask_yes_no (Some False) (stdin w)) = Inr False)"

text \<open>An environment in which the file can be opened and every step's I/O goes through.\<close>

definition no_faults :: "env \<Rightarrow> bool" where
  "no_faults ev = (\<not> open_fails ev \<and> (\<forall>i. io ev i = IoOk))"

text \<open>
  Concrete inputs: a tape whose draws count up, an environment where every operation
  succeeds, one where every write stops after two bytes, one where the backup copy
  fails, one where an interrupt arrives in every step, a file of \<open>n\<close> zero bytes with nothing typed at the terminal, and a command
  line with the default destroy count and backup.
\<close>

definition count_tape :: tape where
  "count_tape i = i"

definition quiet_env :: env where
  "quiet_env = \<lparr>rnd = count_tape, kind = RegularFile, copy_fails = False, open_fails = False, io = (\<lambda>i. IoOk)\<rparr>"

definition torn_env :: env where
  "torn_env = \<lparr>rnd = count_tape, kind = RegularFile, copy_fails = False, open_fails = False, io = (\<lambda>i. WriteFails 2)\<rparr>"

definition zero_file :: "nat \<Rightarrow> world" where
  "zero_file n = \<lparr>target = replicate n 0, backup = None, stdin = [], cursor = 0, steps = []\<rparr>"

definition failing_copy_env :: env where
  "failing_copy_env = \<lparr>rnd = count_tape, kind = RegularFile, copy_fails = True, open_fails = False, io = (\<lambda>i. IoOk)\<rparr>"

definition interrupted_env :: env where
  "interrupted_env = \<lparr>rnd = count_tape, kind = RegularFile, copy_fails = False, open_fails = False, io = (\<lambda>i. Interrupted)\<rparr>"

definition interrupted_result :: world where
  "interrupted_result = \<lparr>target = replicate 3000 0, backup = Some (replicate 3000 0),
                         stdin = [], cursor = 1, steps = [(1024, 1024, 4)]\<rparr>"

definition sample_args :: "string \<Rightarrow> args" where
  "sample_args s = \<lparr>arg_step = s, arg_destroy = 4, arg_no_backup = False\<rparr>"

definition sample_result :: world where
  "sample_result = \<lparr>target = replicate 1024 0 @ [1, 2, 3, 4] @ replicate 1972 0,
                    backup = Some (replicate 3000 0), stdin = [], cursor = 5,
                    steps = [(1024, 1024, 4)]\<rparr>"

definition torn_result :: world where
  "torn_result = \<lparr>target = replicate 1024 0 @ [1, 2] @ replicate 1974 0,
                    backup = None, stdin = [], cursor = 5,
                    steps = [(1024, 1024, 4)]\<rparr>"

section \<open>Properties\<close>

subsection \<open>The mutator\<close>

lemma randint_byte: "randint tp cur 0 255 = (int (tp cur mod 256), Suc cur)"
  by (simp add: randint_def)

lemma gen_sound_aux:
  assumes "generate_random_byte_not_equal_to tp cur original = Some y"
  shows "(\<exists>b. fst y = [b]) \<and> fst y \<noteq> original \<and> cur < snd y"
proof (rule generate_random_byte_not_equal_to.raw_induct
    [where P = "\<lambda>tp cur original y. (\<exists>b. fst y = [b]) \<and> fst y \<noteq> original \<and> cur < snd y",
      OF _ assms])
  fix gen :: "tape \<Rightarrow> nat \<Rightarrow> byte list \<Rightarrow> (byte list \<times> nat) option"
    and tp cur original y
  assume ih: "\<And>tp cur original y. gen tp cur original = Some y \<Longrightarrow>
      (\<exists>b. fst y = [b]) \<and> fst y \<noteq> original \<and> cur < snd y"
    and body: "(case randint tp cur 0 255 of
        (r, cur') \<Rightarrow>
          (if [word_of_int r] \<noteq> original then Some ([word_of_int r], cur')
           else gen tp cur' original)) = Some y"
  show "(\<exists>b. fst y = [b]) \<and> fst y \<noteq> original \<and> cur < snd y"
  proof (cases "[word_of_int (int (tp cur mod 256)) :: byte] \<noteq> original")
    case True
    with body show ?thesis by (auto simp: randint_byte)
  next
    case False
    with body have "gen tp (Suc cur) original = Some y" by (simp add: randint_byte)
    from ih [OF this] show ?thesis by auto
  qed
qed

lemma gen_sound:
  "generate_random_byte_not_equal_to tp cur original = Some (nb, cur') \<Longrightarrow>
     (\<exists>b. nb = [b]) \<and> nb \<noteq> original \<and> cur < cur'"
  using gen_sound_aux [of tp cur original "(nb, cur')"] by simp

lemma gen_returns:
  "i \<le> j \<Longrightarrow> (word_of_int (int (tp j mod 256)) :: byte) \<noteq> b \<Longrightarrow>
     generate_random_byte_not_equal_to tp i [b] \<noteq> None"
proof (induction "j - i" arbitrary: i)
  case 0
  then have "i = j" by simp
  with 0 show ?case
    by (subst generate_random_byte_not_equal_to.simps) (simp add: randint_byte)
next
  case (Suc n)
  then have "Suc i \<le> j" "n = j - Suc i" by simp_all
  with Suc have "generate_random_byte_not_equal_to tp (Suc i) [b] \<noteq> None" by blast
  then show ?case
    by (subst generate_random_byte_not_equal_to.simps) (simp add: randint_byte)
qed

lemma mutate_sound:
  "mutate_bytes tp cur bs = Some (out, cur') \<Longrightarrow>
     length out = length bs \<and> (\<forall>i<length bs. out ! i \<noteq> bs ! i)"
proof (induction bs arbitrary: cur out cur')
  case Nil
  then show ?case by simp
next
  case (Cons b bs)
  from Cons.prems obtain nb c1 rest where
    g: "generate_random_byte_not_equal_to tp cur [b] = Some (nb, c1)" and
    m: "mutate_bytes tp c1 bs = Some (rest, cur')" and
    o: "out = nb @ rest"
    by (auto split: option.splits)
  from gen_sound [OF g] obtain x where x: "nb = [x]" "x \<noteq> b" by auto
  from Cons.IH [OF m] have ih: "length rest = length bs" "\<forall>i<length bs. rest ! i \<noteq> bs ! i"
    by simp_all
  show ?case
  proof (intro conjI allI impI)
    show "length out = length (b # bs)" using o x ih by simp
  next
    fix i assume "i < length (b # bs)"
    then show "out ! i \<noteq> (b # bs) ! i"
      using o x ih by (cases i) simp_all
  qed
qed

lemma mutate_returns:
  "fair tp \<Longrightarrow> mutate_bytes tp cur bs \<noteq> None"
proof (induction bs arbitrary: cur)
  case Nil
  then show ?case by simp
next
  case (Cons b bs)
  from Cons.prems obtain j where "cur \<le> j" "(word_of_int (int (tp j mod 256)) :: byte) \<noteq> b"
    unfolding fair_def by blast
  then have "generate_random_byte_not_equal_to tp cur [b] \<noteq> None"
    by (rule gen_returns)
  then obtain nb c1 where g: "generate_random_byte_not_equal_to tp cur [b] = Some (nb, c1)"
    by auto
  from Cons have "mutate_bytes tp c1 bs \<noteq> None" by blast
  then obtain rest c2 where "mutate_bytes tp c1 bs = Some (rest, c2)" by auto
  with g show ?case by simp
qed

subsection \<open>The planner\<close>

lemma available_range_pos:
  "pos < file_size - 1024 \<Longrightarrow> 0 < available_range file_size pos"
  by (simp add: available_range_def min_def)

lemma available_range_le:
  "pos + available_range file_size pos \<le> file_size - 1024"
  by (simp add: available_range_def min_def)

lemma randint_range:
  "0 \<le> b \<Longrightarrow> randint tp cur 0 b = (r, cur') \<Longrightarrow> 0 \<le> r \<and> r \<le> b \<and> cur' = Suc cur"
proof -
  assume b: "0 \<le> b" and r: "randint tp cur 0 b = (r, cur')"
  have "tp cur mod nat (b + 1) < nat (b + 1)" using b by (intro mod_less_divisor) simp
  then have "int (tp cur mod nat (b + 1)) \<le> b" using b by linarith
  with r show ?thesis by (auto simp: randint_def)
qed

lemma planner_outside:
  "2048 < file_size \<Longrightarrow> pos < 1024 \<or> file_size - 1024 \<le> pos \<Longrightarrow>
     protect_region_check tp cur file_size pos destroy_count = Inr ((0, 0), cur)"
  by (auto simp: protect_region_check_def Let_def)

lemma planner_inside:
  assumes "2048 < file_size" "1024 \<le> pos" "pos < file_size - 1024"
  shows "\<exists>actual_start cur'.
     protect_region_check tp cur file_size pos destroy_count
       = Inr ((actual_start, min destroy_count (available_range file_size pos)), cur')
     \<and> pos \<le> actual_start
     \<and> actual_start - pos \<le> available_range file_size pos - min destroy_count (available_range file_size pos)
     \<and> (destroy_count \<le> 0 \<longrightarrow> actual_start = pos \<and> cur' = cur)"
proof -
  let ?av = "available_range file_size pos"
  let ?dh = "min destroy_count ?av"
  have av: "0 < ?av" using assms by (simp add: available_range_pos)
  show ?thesis
  proof (cases "0 < ?dh")
    case True
    obtain r c where rc: "randint tp cur 0 (?av - ?dh) = (r, c)" by (cases "randint tp cur 0 (?av - ?dh)")
    have "0 \<le> ?av - ?dh" by simp
    from randint_range [OF this rc] have "0 \<le> r" "r \<le> ?av - ?dh" by simp_all
    moreover have "protect_region_check tp cur file_size pos destroy_count = Inr ((pos + r, ?dh), c)"
      using assms av True rc by (simp add: protect_region_check_def Let_def)
    ultimately show ?thesis using True by auto
  next
    case False
    then have "protect_region_check tp cur file_size pos destroy_count = Inr ((pos, ?dh), cur)"
      using assms av by (simp add: protect_region_check_def Let_def)
    then show ?thesis using av by auto
  qed
qed

lemma planner_small:
  "file_size \<le> 2048 \<Longrightarrow> protect_region_check tp cur file_size pos destroy_count = Inl ValueError"
  by (simp add: protect_region_check_def Let_def)

text \<open>Whatever the planner returns with a positive count lies inside the safe region.\<close>
lemma planner_positive:
  assumes "protect_region_check tp cur file_size pos destroy_count = Inr ((a, n), cur')" "0 < n"
  shows "1024 \<le> a \<and> a + n \<le> file_size - 1024 \<and> 2048 < file_size"
proof -
  from assms have fs: "2048 < file_size"
    by (cases "file_size \<le> 2048") (simp_all add: planner_small)
  from assms fs have inside: "1024 \<le> pos \<and> pos < file_size - 1024"
    using planner_outside [of file_size pos tp cur destroy_count] by (cases "pos < 1024 \<or> file_size - 1024 \<le> pos") auto
  from planner_inside [of file_size pos tp cur destroy_count] fs inside assms
  have "pos \<le> a" "a - pos \<le> available_range file_size pos - n" by auto
  with available_range_le [of pos file_size] inside fs show ?thesis by linarith
qed

subsection \<open>Writes stay inside the safe region\<close>

lemma protected_equal_refl: "protected_equal c c"
  by (simp add: protected_equal_def)

lemma protected_equal_trans:
  "protected_equal a b \<Longrightarrow> protected_equal b c \<Longrightarrow> protected_equal a c"
  by (simp add: protected_equal_def)

lemma f_write_length:
  "nat a + length new_bytes \<le> length content \<Longrightarrow> length (f_write content a new_bytes) = length content"
  by (simp add: f_write_def)

lemma f_write_nth:
  assumes "nat a + length new_bytes \<le> length content" "i < length content"
    "i < nat a \<or> nat a + length new_bytes \<le> i"
  shows "f_write content a new_bytes ! i = content ! i"
proof -
  have z: "nat a - length content = 0" using assms by simp
  show ?thesis
  proof (cases "i < nat a")
    case True
    then show ?thesis using assms by (simp add: f_write_def nth_append)
  next
    case False
    with assms have "nat a + length new_bytes \<le> i" by simp
    then show ?thesis using assms z by (auto simp: f_write_def nth_append)
  qed
qed

lemma f_write_protected:
  assumes "1024 \<le> a" "a + int (length new_bytes) \<le> int (length content) - 1024"
  shows "protected_equal content (f_write content a new_bytes)"
proof -
  have le: "nat a + length new_bytes \<le> length content" using assms by linarith
  show ?thesis unfolding protected_equal_def
  proof (intro conjI allI impI)
    show "length (f_write content a new_bytes) = length content" by (rule f_write_length [OF le])
  next
    fix i assume i: "i < length content" "i < 1024 \<or> length content - 1024 \<le> i"
    have "i < nat a \<or> nat a + length new_bytes \<le> i" using i assms by linarith
    with le i show "f_write content a new_bytes ! i = content ! i" by (simp add: f_write_nth)
  qed
qed

lemma f_read_length:
  "0 \<le> a \<Longrightarrow> 0 \<le> n \<Longrightarrow> a + n \<le> int (length content) \<Longrightarrow> length (f_read content a n) = nat n"
  by (simp add: f_read_def)

lemma mutate_length:
  "mutate_bytes tp cur bs = Some (out, cur') \<Longrightarrow> length out = length bs"
  using mutate_sound by blast

text \<open>One full step preserves the protected regions.\<close>
lemma step_write_protected:
  assumes p: "protect_region_check tp cur (int (length content)) pos d = Inr ((a, n), cur1)" "0 < n"
    and m: "mutate_bytes tp cur1 (f_read content a n) = Some (new_bytes, cur2)"
  shows "protected_equal content (f_write content a (take k new_bytes))"
    and "protected_equal content (f_write content a new_bytes)"
proof -
  from planner_positive [OF p] have b: "1024 \<le> a" "a + n \<le> int (length content) - 1024" by simp_all
  then have "length (f_read content a n) = nat n" using p(2) by (intro f_read_length) linarith+
  with mutate_length [OF m] have l: "length new_bytes = nat n" by simp
  show "protected_equal content (f_write content a new_bytes)"
    using b l p(2) by (intro f_write_protected) linarith+
  have "int (length (take k new_bytes)) \<le> n" using l p(2) by simp
  then show "protected_equal content (f_write content a (take k new_bytes))"
    using b by (intro f_write_protected) linarith+
qed

lemma walk_steps_frame:
  "walk_steps ev file_size step_bytes d idxs w = Some (r, w') \<Longrightarrow>
   file_size = int (length (target w)) \<Longrightarrow>
     protected_equal (target w) (target w') \<and> backup w' = backup w \<and> stdin w' = stdin w"
proof (induction idxs arbitrary: w)
  case Nil
  then show ?case by (simp add: protected_equal_refl)
next
  case (Cons step_idx later)
  let ?pos = "1024 + int step_idx * step_bytes"
  show ?case
  proof (cases "protect_region_check (rnd ev) (cursor w) file_size ?pos d")
    case (Inl e)
    with Cons.prems show ?thesis by (simp add: protected_equal_refl)
  next
    case (Inr res)
    then obtain a n cur1 where res: "protect_region_check (rnd ev) (cursor w) file_size ?pos d = Inr ((a, n), cur1)"
      by (cases res) auto
    let ?w1 = "w\<lparr>cursor := cur1, steps := steps w @ [(?pos, a, n)]\<rparr>"
    show ?thesis
    proof (cases "n \<le> 0")
      case True
      with Cons.prems res have "walk_steps ev file_size step_bytes d later ?w1 = Some (r, w')"
        by simp
      from Cons.IH [OF this] Cons.prems(2) show ?thesis by simp
    next
      case False
      then have n: "0 < n" by simp
      show ?thesis
      proof (cases "io ev step_idx")
        case Interrupted
        with Cons.prems res False show ?thesis by (auto simp: protected_equal_refl)
      next
        case ReadFails
        with Cons.prems res False show ?thesis by (auto simp: protected_equal_refl)
      next
        case (WriteFails k)
        with Cons.prems res False obtain new_bytes cur2 where
          m: "mutate_bytes (rnd ev) cur1 (f_read (target w) a n) = Some (new_bytes, cur2)" and
          w': "w' = ?w1\<lparr>cursor := cur2, target := f_write (target w) a (take k new_bytes)\<rparr>"
          by (auto simp: Let_def split: option.splits)
        from res Cons.prems(2) have "protect_region_check (rnd ev) (cursor w) (int (length (target w))) ?pos d = Inr ((a, n), cur1)"
          by simp
        from step_write_protected(1) [OF this n m] w' show ?thesis by simp
      next
        case IoOk
        with Cons.prems res False obtain new_bytes cur2 where
          m: "mutate_bytes (rnd ev) cur1 (f_read (target w) a n) = Some (new_bytes, cur2)" and
          rec: "walk_steps ev file_size step_bytes d later
                  (?w1\<lparr>cursor := cur2, target := f_write (target w) a new_bytes\<rparr>) = Some (r, w')"
          by (auto simp: Let_def split: option.splits)
        from res Cons.prems(2) have "protect_region_check (rnd ev) (cursor w) (int (length (target w))) ?pos d = Inr ((a, n), cur1)"
          by simp
        from step_write_protected(2) [OF this n m]
        have pe: "protected_equal (target w) (f_write (target w) a new_bytes)" .
        then have "file_size = int (length (target (?w1\<lparr>cursor := cur2, target := f_write (target w) a new_bytes\<rparr>)))"
          using Cons.prems(2) by (simp add: protected_equal_def)
        from Cons.IH [OF rec this] pe show ?thesis
          by (auto intro: protected_equal_trans)
      qed
    qed
  qed
qed

lemma walk_steps_returns:
  "fair (rnd ev) \<Longrightarrow> walk_steps ev file_size step_bytes d idxs w \<noteq> None"
proof (induction idxs arbitrary: w)
  case Nil
  then show ?case by simp
next
  case (Cons step_idx later)
  have m: "\<And>c bs. \<exists>out c'. mutate_bytes (rnd ev) c bs = Some (out, c')"
    using mutate_returns [OF Cons.prems] by auto
  show ?case
    using Cons.IH [OF Cons.prems]
    apply (simp add: Let_def split: sum.splits prod.splits io_event.splits option.splits)
    using m by (metis option.distinct(1))
qed

subsection \<open>The number of steps and the windows\<close>

lemma neg_div_neg:
  "(b::int) \<noteq> 0 \<Longrightarrow> - (- a div b) = a div b + (if a mod b \<noteq> 0 then 1 else 0)"
  by (simp add: zdiv_zminus1_eq_if)

lemma total_steps_ceiling:
  assumes "step_bytes \<noteq> 0"
  shows "total_steps file_size step_bytes = \<lceil>real_of_int (file_size - 2048) / real_of_int step_bytes\<rceil>"
  unfolding total_steps_def ceiling_divide_eq_div neg_div_neg [OF assms] ..

lemma walk_steps_log:
  "walk_steps ev file_size step_bytes d idxs w = Some (r, w') \<Longrightarrow>
     \<exists>k\<le>length idxs.
        map fst (steps w') = map fst (steps w) @ map (\<lambda>i. 1024 + int i * step_bytes) (take k idxs)
        \<and> (r = Inr () \<longrightarrow> k = length idxs)"
proof (induction idxs arbitrary: w)
  case Nil
  then show ?case by simp
next
  case (Cons step_idx later)
  let ?pos = "1024 + int step_idx * step_bytes"
  have base: "\<And>w1. map fst (steps w1) = map fst (steps w) @ [?pos] \<Longrightarrow>
      \<exists>k\<le>length (step_idx # later).
        map fst (steps w1) = map fst (steps w) @ map (\<lambda>i. 1024 + int i * step_bytes) (take k (step_idx # later))"
    by (rule exI [of _ 1]) simp
  have rec: "\<And>w1. map fst (steps w1) = map fst (steps w) @ [?pos] \<Longrightarrow>
      walk_steps ev file_size step_bytes d later w1 = Some (r, w') \<Longrightarrow> ?case"
  proof -
    fix w1 assume s: "map fst (steps w1) = map fst (steps w) @ [?pos]"
      and r: "walk_steps ev file_size step_bytes d later w1 = Some (r, w')"
    from Cons.IH [OF r] obtain k where k: "k \<le> length later"
      "map fst (steps w') = map fst (steps w1) @ map (\<lambda>i. 1024 + int i * step_bytes) (take k later)"
      "r = Inr () \<longrightarrow> k = length later" by blast
    show ?case
      by (rule exI [of _ "Suc k"]) (use k s in simp)
  qed
  show ?case
  proof (cases "protect_region_check (rnd ev) (cursor w) file_size ?pos d")
    case (Inl e)
    with Cons.prems have "w' = w" "r = Inl e" by simp_all
    then show ?thesis by (intro exI [of _ 0]) simp
  next
    case (Inr res)
    then obtain a n cur1 where res: "protect_region_check (rnd ev) (cursor w) file_size ?pos d = Inr ((a, n), cur1)"
      by (cases res) auto
    let ?w1 = "w\<lparr>cursor := cur1, steps := steps w @ [(?pos, a, n)]\<rparr>"
    have s1: "map fst (steps ?w1) = map fst (steps w) @ [?pos]" by simp
    show ?thesis
    proof (cases "n \<le> 0")
      case True
      with Cons.prems res have "walk_steps ev file_size step_bytes d later ?w1 = Some (r, w')"
        by simp
      from rec [OF s1 this] show ?thesis .
    next
      case False
      show ?thesis
      proof (cases "io ev step_idx")
        case Interrupted
        with Cons.prems res False have "w' = ?w1" "r = Inl KeyboardInterrupt" by auto
        then show ?thesis by (intro exI [of _ 1]) simp
      next
        case ReadFails
        with Cons.prems res False have "w' = ?w1" "r = Inl OSError" by auto
        then show ?thesis by (intro exI [of _ 1]) simp
      next
        case (WriteFails k)
        with Cons.prems res False obtain new_bytes cur2 where
          "w' = ?w1\<lparr>cursor := cur2, target := f_write (target w) a (take k new_bytes)\<rparr>" "r = Inl OSError"
          by (auto simp: Let_def split: option.splits)
        then show ?thesis by (intro exI [of _ 1]) simp
      next
        case IoOk
        with Cons.prems res False obtain new_bytes cur2 where
          r: "walk_steps ev file_size step_bytes d later
                  (?w1\<lparr>cursor := cur2, target := f_write (target w) a new_bytes\<rparr>) = Some (r, w')"
          by (auto simp: Let_def split: option.splits)
        show ?thesis by (rule rec [OF _ r]) simp
      qed
    qed
  qed
qed

subsection \<open>Sample runs\<close>

lemma gen_count_tape:
  "(word_of_nat (Suc n mod 256) :: byte) \<noteq> 0 \<Longrightarrow>
   generate_random_byte_not_equal_to count_tape (Suc n) [0] = Some ([word_of_nat (Suc n mod 256)], Suc (Suc n))"
  by (subst generate_random_byte_not_equal_to.simps) (simp add: randint_def count_tape_def)

lemma zeros4: "replicate 4 (0::byte) = [0, 0, 0, 0]"
  by code_simp

lemma sample_mutate: "mutate_bytes count_tape (Suc 0) (replicate 4 0) = Some ([1, 2, 3, 4], 5)"
  unfolding zeros4
  by (simp add: generate_random_byte_not_equal_to.simps randint_def count_tape_def)

lemma sample_plan: "protect_region_check count_tape 0 3000 1024 4 = Inr ((1024, 4), 1)"
  by (simp add: protect_region_check_def available_range_def randint_def count_tape_def)

lemma sample_run:
  "corrupt_file quiet_env 1 4 True (zero_file 3000) =
     Some (Inr (), \<lparr>target = replicate 1024 0 @ [1, 2, 3, 4] @ replicate 1972 0,
                    backup = Some (replicate 3000 0), stdin = [], cursor = 5,
                    steps = [(1024, 1024, 4)]\<rparr>)"
  by (simp add: corrupt_file_def walk_file_def total_steps_def quiet_env_def zero_file_def
      sample_plan sample_mutate f_read_def f_write_def Let_def)

lemma torn_run:
  "corrupt_file torn_env 1 4 False (zero_file 3000) =
     Some (Inl OSError, \<lparr>target = replicate 1024 0 @ [1, 2] @ replicate 1974 0,
                    backup = None, stdin = [], cursor = 5,
                    steps = [(1024, 1024, 4)]\<rparr>)"
  by (simp add: corrupt_file_def walk_file_def total_steps_def torn_env_def zero_file_def
      sample_plan sample_mutate f_read_def f_write_def Let_def)

lemma small_run:
  "corrupt_file quiet_env 1 4 True (zero_file 2048) =
     Some (Inr (), \<lparr>target = replicate 2048 0,
                    backup = Some (replicate 2048 0), stdin = [], cursor = 0,
                    steps = []\<rparr>)"
  by (simp add: corrupt_file_def walk_file_def total_steps_def quiet_env_def zero_file_def)

lemma byte_of_draw: "(word_of_nat (n mod 256) :: byte) = word_of_nat n"
  by (simp add: word_of_nat_eq_iff take_bit_eq_mod)

lemma fair_count_tape: "fair count_tape"
  unfolding fair_def
proof (intro allI)
  fix i :: nat and v :: byte
  show "\<exists>j\<ge>i. (word_of_int (int (count_tape j mod 256)) :: byte) \<noteq> v"
  proof (cases "(word_of_nat i :: byte) = v")
    case False
    then show ?thesis by (intro exI [of _ i]) (simp add: byte_of_draw count_tape_def)
  next
    case True
    have "(word_of_nat (Suc i) :: byte) \<noteq> word_of_nat i" by simp
    with True show ?thesis by (intro exI [of _ "Suc i"]) (simp add: byte_of_draw count_tape_def)
  qed
qed

subsection \<open>The whole call\<close>

lemma walk_file_frame:
  "walk_file ev (int (length (target w))) step_bytes d w = Some (r, w') \<Longrightarrow>
     protected_equal (target w) (target w') \<and> backup w' = backup w \<and> stdin w' = stdin w"
  by (auto simp: walk_file_def protected_equal_refl split: if_splits dest: walk_steps_frame)

lemma corrupt_file_shape:
  "(\<exists>e rs. corrupt_file ev step_kb d make_backup w = Some (Inl e, w\<lparr>stdin := rs\<rparr>))
   \<or> (backup_declined ev make_backup w
        \<and> (\<exists>rs. corrupt_file ev step_kb d make_backup w = Some (Inr (), w\<lparr>stdin := rs\<rparr>)))
   \<or> (\<exists>v. target v = target w \<and> steps v = steps w
        \<and> corrupt_file ev step_kb d make_backup w
            = walk_file ev (int (length (target w))) (step_kb * 1024) d v)"
proof (cases "step_kb = 0")
  case True
  then have "corrupt_file ev step_kb d make_backup w = Some (Inl ZeroDivisionError, w\<lparr>stdin := stdin w\<rparr>)"
    by (simp add: corrupt_file_def)
  then show ?thesis by blast
next
  case nz: False
  show ?thesis
  proof (cases "make_backup \<and> copy_fails ev")
    case False
    then have "corrupt_file ev step_kb d make_backup w
        = walk_file ev (int (length (target w))) (step_kb * 1024) d
            (if make_backup then w\<lparr>backup := Some (target w)\<rparr> else w)"
      using nz by (auto simp: corrupt_file_def Let_def)
    moreover have "target (if make_backup then w\<lparr>backup := Some (target w)\<rparr> else w) = target w"
      "steps (if make_backup then w\<lparr>backup := Some (target w)\<rparr> else w) = steps w" by simp_all
    ultimately show ?thesis by blast
  next
    case True
    obtain a rs where ask: "ask_yes_no (Some False) (stdin w) = (a, rs)"
      by (cases "ask_yes_no (Some False) (stdin w)")
    show ?thesis
    proof (cases a)
      case (Inl e)
      with True nz ask have "corrupt_file ev step_kb d make_backup w = Some (Inl e, w\<lparr>stdin := rs\<rparr>)"
        by (simp add: corrupt_file_def)
      then show ?thesis by blast
    next
      case (Inr b)
      show ?thesis
      proof (cases b)
        case True
        with \<open>make_backup \<and> copy_fails ev\<close> nz ask Inr
        have "corrupt_file ev step_kb d make_backup w
            = walk_file ev (int (length (target w))) (step_kb * 1024) d (w\<lparr>stdin := rs\<rparr>)"
          by (simp add: corrupt_file_def)
        moreover have "target (w\<lparr>stdin := rs\<rparr>) = target w" "steps (w\<lparr>stdin := rs\<rparr>) = steps w"
          by simp_all
        ultimately show ?thesis by blast
      next
        case False
        with \<open>make_backup \<and> copy_fails ev\<close> nz ask Inr
        have "corrupt_file ev step_kb d make_backup w = Some (Inr (), w\<lparr>stdin := rs\<rparr>)"
          "backup_declined ev make_backup w"
          by (simp_all add: corrupt_file_def backup_declined_def)
        then show ?thesis by blast
      qed
    qed
  qed
qed

lemma corrupt_file_frame:
  assumes "corrupt_file ev step_kb d make_backup w = Some (r, w')"
  shows "protected_equal (target w) (target w')"
proof -
  consider (stop) rs where "w' = w\<lparr>stdin := rs\<rparr>"
    | (walk) v where "target v = target w"
        "walk_file ev (int (length (target v))) (step_kb * 1024) d v = Some (r, w')"
    using corrupt_file_shape [of ev step_kb d make_backup w] assms by auto
  then show ?thesis
  proof cases
    case stop
    then show ?thesis by (simp add: protected_equal_refl)
  next
    case walk
    from walk_file_frame [OF walk(2)] walk(1) show ?thesis by simp
  qed
qed

lemma walk_file_returns:
  "fair (rnd ev) \<Longrightarrow> \<exists>r w'. walk_file ev file_size step_bytes d w = Some (r, w')"
  using walk_steps_returns [of ev file_size step_bytes d _ w] by (auto simp: walk_file_def)

lemma corrupt_file_returns:
  "fair (rnd ev) \<Longrightarrow> \<exists>r w'. corrupt_file ev step_kb d make_backup w = Some (r, w')"
  using corrupt_file_shape [of ev step_kb d make_backup w]
    walk_file_returns [of ev "int (length (target w))" "step_kb * 1024" d]
  by metis

lemma walk_file_log:
  assumes "walk_file ev file_size step_bytes d w = Some (r, w')"
  shows "\<exists>k\<le>nat (total_steps file_size step_bytes).
        map fst (steps w') = map fst (steps w) @ map (\<lambda>i. 1024 + int i * step_bytes) [0..<k]
        \<and> (r = Inr () \<longrightarrow> k = nat (total_steps file_size step_bytes))"
proof (cases "open_fails ev")
  case True
  with assms have "w' = w" "r = Inl OSError" by (simp_all add: walk_file_def)
  then show ?thesis by (intro exI [of _ 0]) simp
next
  case False
  let ?n = "nat (total_steps file_size step_bytes)"
  from False assms have "walk_steps ev file_size step_bytes d [0..<?n] w = Some (r, w')"
    by (simp add: walk_file_def)
  from walk_steps_log [OF this] obtain k where k: "k \<le> length [0..<?n]"
    "map fst (steps w') = map fst (steps w) @ map (\<lambda>i. 1024 + int i * step_bytes) (take k [0..<?n])"
    "r = Inr () \<longrightarrow> k = length [0..<?n]" by blast
  from k(1) have "take k [0..<?n] = [0..<k]" by simp
  with k show ?thesis by (intro exI [of _ k]) simp
qed

lemma corrupt_file_log:
  assumes "corrupt_file ev step_kb d make_backup w = Some (r, w')" "steps w = []"
  shows "\<exists>k\<le>nat (total_steps (int (length (target w))) (step_kb * 1024)).
        map fst (steps w') = map (\<lambda>i. 1024 + int i * (step_kb * 1024)) [0..<k]
        \<and> (r = Inr () \<and> \<not> backup_declined ev make_backup w
              \<longrightarrow> k = nat (total_steps (int (length (target w))) (step_kb * 1024)))"
proof -
  consider (stop) rs where "w' = w\<lparr>stdin := rs\<rparr>" "r \<noteq> Inr () \<or> backup_declined ev make_backup w"
    | (walk) v where "steps v = steps w"
        "walk_file ev (int (length (target w))) (step_kb * 1024) d v = Some (r, w')"
    using corrupt_file_shape [of ev step_kb d make_backup w] assms(1) by auto
  then show ?thesis
  proof cases
    case stop
    then show ?thesis using assms(2) by (intro exI [of _ 0]) auto
  next
    case walk
    from walk_file_log [OF walk(2)] walk(1) assms(2) show ?thesis by auto
  qed
qed

section \<open>The claims about the planner, the mutator and the walker\<close>

text \<open>
  Claim C1. On a file of more than 2048 bytes, with a positive step and a positive destroy
  count, whatever \<^verbatim>\<open>corrupt_file\<close> returns (normally or with an exception), the file
  has the length it had and every byte of the first 1024 and of the last 1024 positions
  has the value it had. The call returns whenever the random tape is fair.
\<close>
theorem protected_regions_unchanged:
  assumes "2048 < length (target w)" "0 < step_kb" "0 < destroy_bytes"
  shows "(\<forall>r w'. corrupt_file ev step_kb destroy_bytes make_backup w = Some (r, w') \<longrightarrow>
            length (target w') = length (target w) \<and>
            (\<forall>i<length (target w). i < 1024 \<or> length (target w) - 1024 \<le> i
                \<longrightarrow> target w' ! i = target w ! i))
       \<and> (fair (rnd ev) \<longrightarrow>
            (\<exists>r w'. corrupt_file ev step_kb destroy_bytes make_backup w = Some (r, w')))"
  using corrupt_file_frame [of ev step_kb destroy_bytes make_backup w]
    corrupt_file_returns [of ev step_kb destroy_bytes make_backup w]
  unfolding protected_equal_def by blast

text \<open>
  The run on 3000 zero bytes with step 1 KB and destroy count 4: bytes 1023 and 1976,
  the edges of the protected regions, are unchanged, byte 1024 is not.
\<close>
theorem protected_regions_unchanged_witness:
  "2048 < length (target (zero_file 3000)) \<and> (0::int) < 1 \<and> (0::int) < 4
   \<and> fair (rnd quiet_env)
   \<and> corrupt_file quiet_env 1 4 True (zero_file 3000) = Some (Inr (), sample_result)
   \<and> length (target sample_result) = length (target (zero_file 3000))
   \<and> target sample_result ! 1023 = target (zero_file 3000) ! 1023
   \<and> target sample_result ! 1976 = target (zero_file 3000) ! 1976
   \<and> target sample_result ! 1024 \<noteq> target (zero_file 3000) ! 1024"
proof -
  have h: "2048 < length (target (zero_file 3000))" "(0::int) < 1" "(0::int) < 4"
    by (simp_all add: zero_file_def)
  have f: "fair (rnd quiet_env)" by (simp add: quiet_env_def fair_count_tape)
  have run: "corrupt_file quiet_env 1 4 True (zero_file 3000) = Some (Inr (), sample_result)"
    by (simp add: sample_run sample_result_def)
  have l: "length (target (zero_file 3000)) = 3000" by (simp add: zero_file_def)
  from protected_regions_unchanged [OF h, of quiet_env True] run
  have "length (target sample_result) = length (target (zero_file 3000))"
    and a: "\<forall>i<length (target (zero_file 3000)). i < 1024 \<or> length (target (zero_file 3000)) - 1024 \<le> i
                \<longrightarrow> target sample_result ! i = target (zero_file 3000) ! i"
    by blast+
  moreover from a l have "target sample_result ! 1023 = target (zero_file 3000) ! 1023"
    "target sample_result ! 1976 = target (zero_file 3000) ! 1976" by simp_all
  moreover have "target sample_result ! 1024 \<noteq> target (zero_file 3000) ! 1024"
    by (simp add: sample_result_def zero_file_def nth_append)
  ultimately show ?thesis using h f run by blast
qed

text \<open>
  Claim C2. Whatever the mutator returns has the length of its input and differs from it
  at every position; it returns whenever the random tape is fair.
\<close>
theorem mutate_bytes_differs:
  "(\<forall>out cur'. mutate_bytes tp cur bs = Some (out, cur') \<longrightarrow>
       length out = length bs \<and> (\<forall>i<length bs. out ! i \<noteq> bs ! i))
   \<and> (fair tp \<longrightarrow> (\<exists>out cur'. mutate_bytes tp cur bs = Some (out, cur')))"
  using mutate_sound [of tp cur bs] mutate_returns [of tp cur bs] by auto

text \<open>The mutator on the bytes 0, 1, 5 with the counting tape.\<close>
theorem mutate_bytes_differs_witness:
  "fair count_tape
   \<and> mutate_bytes count_tape 0 [0, 1, 5] = Some ([1, 2, 3], 4)
   \<and> length [1, 2, 3 :: byte] = length [0, 1, 5 :: byte]
   \<and> [1, 2, 3 :: byte] ! 0 \<noteq> [0, 1, 5] ! 0
   \<and> [1, 2, 3 :: byte] ! 1 \<noteq> [0, 1, 5] ! 1
   \<and> [1, 2, 3 :: byte] ! 2 \<noteq> [0, 1, 5] ! 2"
proof -
  have run: "mutate_bytes count_tape 0 [0, 1, 5] = Some ([1, 2, 3], 4)"
    by (simp add: generate_random_byte_not_equal_to.simps randint_def count_tape_def)
  from mutate_bytes_differs [of count_tape 0 "[0, 1, 5]"] run
  have "length [1, 2, 3 :: byte] = length [0, 1, 5 :: byte]"
    and a: "\<forall>i<length [0, 1, 5 :: byte]. [1, 2, 3 :: byte] ! i \<noteq> [0, 1, 5] ! i"
    by blast+
  moreover from a have "[1, 2, 3 :: byte] ! 0 \<noteq> [0, 1, 5] ! 0" by simp
  moreover from a have "[1, 2, 3 :: byte] ! 1 \<noteq> [0, 1, 5] ! 1" by simp
  moreover from a have "[1, 2, 3 :: byte] ! 2 \<noteq> [0, 1, 5] ! 2" by simp
  ultimately show ?thesis using run fair_count_tape by blast
qed

text \<open>
  Claim C3, as amended. For a file of more than 2048 bytes and a window start inside the
  safe region, the count the planner returns is the minimum of the destroy count and
  \<open>min (pos + 1024) safe_end - pos\<close>: the window is 1024 bytes long whatever the
  configured step. That is the value the claim gives, with the configured step in place
  of 1024, when the step is 1024 bytes, or is at least 1024 bytes and the destroy count
  is at most 1024.
\<close>
theorem planner_window_is_1024:
  assumes "2048 < file_size" "1024 \<le> pos" "pos < file_size - 1024"
  shows "(\<exists>actual_start cur'.
            protect_region_check tp cur file_size pos destroy_count
              = Inr ((actual_start, min destroy_count (min (pos + 1024) (file_size - 1024) - pos)), cur'))
       \<and> (step_bytes = 1024 \<or> 1024 \<le> step_bytes \<and> destroy_count \<le> 1024 \<longrightarrow>
            min destroy_count (min (pos + 1024) (file_size - 1024) - pos)
              = min destroy_count (min (pos + step_bytes) (file_size - 1024) - pos))"
proof -
  from planner_inside [OF assms, of tp cur destroy_count]
  have "\<exists>actual_start cur'.
            protect_region_check tp cur file_size pos destroy_count
              = Inr ((actual_start, min destroy_count (min (pos + 1024) (file_size - 1024) - pos)), cur')"
    unfolding available_range_def by blast
  moreover have "step_bytes = 1024 \<or> 1024 \<le> step_bytes \<and> destroy_count \<le> 1024 \<longrightarrow>
            min destroy_count (min (pos + 1024) (file_size - 1024) - pos)
              = min destroy_count (min (pos + step_bytes) (file_size - 1024) - pos)"
    by auto
  ultimately show ?thesis by blast
qed

text \<open>A 10000-byte file, window start 1024, destroy count 4, step 2048.\<close>
theorem planner_window_is_1024_witness:
  "(2048::int) < 10000 \<and> (1024::int) \<le> 1024 \<and> (1024::int) < 10000 - 1024
   \<and> protect_region_check count_tape 0 10000 1024 4 = Inr ((1024, 4), 1)
   \<and> (1024::int) \<le> 2048 \<and> (4::int) \<le> 1024
   \<and> min 4 (min (1024 + 1024) (10000 - 1024) - 1024) = min (4::int) (min (1024 + 2048) (10000 - 1024) - 1024)"
proof -
  have h: "(2048::int) < 10000" "(1024::int) \<le> 1024" "(1024::int) < 10000 - 1024" by simp_all
  have run: "protect_region_check count_tape 0 10000 1024 4 = Inr ((1024, 4), 1)"
    by (simp add: protect_region_check_def available_range_def randint_def count_tape_def)
  from planner_window_is_1024 [OF h, of count_tape 0 4 2048]
  have "min 4 (min (1024 + 1024) (10000 - 1024) - 1024) = min (4::int) (min (1024 + 2048) (10000 - 1024) - 1024)"
    by simp
  with run show ?thesis by simp
qed

text \<open>
  Claim C3 as stated fails: file size 10000, step 2048 bytes, window start 1024, destroy
  count 2000. The planner's available length is 1024, not
  \<open>min (1024 + 2048) 8976 - 1024 = 2048\<close>, and it returns the count 1024, not 2000.
\<close>
theorem planner_window_counterexample:
  "(2048::int) < 10000 \<and> (0::int) < 2048 \<and> (1024::int) \<le> 1024 \<and> (1024::int) < 10000 - 1024
   \<and> available_range 10000 1024 \<noteq> min (1024 + 2048) (10000 - 1024) - 1024
   \<and> protect_region_check count_tape 0 10000 1024 2000 = Inr ((1024, 1024), 1)
   \<and> (1024::int) \<noteq> min 2000 (min (1024 + 2048) (10000 - 1024) - 1024)"
  by (simp add: protect_region_check_def available_range_def randint_def count_tape_def)

text \<open>
  Claim C4. For a file of more than 2048 bytes and a positive destroy count: a window
  start outside the safe region gives the pair \<open>(0, 0)\<close>; a window start inside gives
  an offset and a count with the offset at or after the window start, the run ending at
  or before the end of the safe region, the count at most the destroy count, and the
  distance from the window start between 0 and the available length less the count (the
  planner's own available length, hence also the one of any configured step of at least
  one kilobyte).
\<close>
theorem planner_stays_in_safe_region:
  assumes "2048 < file_size" "0 < destroy_count"
  shows "(pos < 1024 \<or> file_size - 1024 \<le> pos \<longrightarrow>
            protect_region_check tp cur file_size pos destroy_count = Inr ((0, 0), cur))
       \<and> (1024 \<le> pos \<and> pos < file_size - 1024 \<longrightarrow>
            (\<exists>actual_start actual_count cur'.
               protect_region_check tp cur file_size pos destroy_count
                 = Inr ((actual_start, actual_count), cur')
               \<and> pos \<le> actual_start
               \<and> actual_start + actual_count \<le> file_size - 1024
               \<and> actual_count \<le> destroy_count
               \<and> 0 \<le> actual_start - pos
               \<and> actual_start - pos \<le> available_range file_size pos - actual_count
               \<and> (\<forall>step_kb>0. actual_start - pos
                     \<le> min (pos + step_kb * 1024) (file_size - 1024) - pos - actual_count)))"
proof (intro conjI impI)
  assume "pos < 1024 \<or> file_size - 1024 \<le> pos"
  with assms(1) show "protect_region_check tp cur file_size pos destroy_count = Inr ((0, 0), cur)"
    by (rule planner_outside)
next
  assume inside: "1024 \<le> pos \<and> pos < file_size - 1024"
  let ?av = "available_range file_size pos"
  from planner_inside [of file_size pos tp cur destroy_count] assms(1) inside
  obtain a c where r: "protect_region_check tp cur file_size pos destroy_count
       = Inr ((a, min destroy_count ?av), c)" "pos \<le> a" "a - pos \<le> ?av - min destroy_count ?av"
    by blast
  have le: "pos + ?av \<le> file_size - 1024" by (rule available_range_le)
  have wide: "\<forall>step_kb>0. ?av \<le> min (pos + step_kb * 1024) (file_size - 1024) - pos"
    by (auto simp: available_range_def)
  show "\<exists>actual_start actual_count cur'.
               protect_region_check tp cur file_size pos destroy_count
                 = Inr ((actual_start, actual_count), cur')
               \<and> pos \<le> actual_start
               \<and> actual_start + actual_count \<le> file_size - 1024
               \<and> actual_count \<le> destroy_count
               \<and> 0 \<le> actual_start - pos
               \<and> actual_start - pos \<le> available_range file_size pos - actual_count
               \<and> (\<forall>step_kb>0. actual_start - pos
                     \<le> min (pos + step_kb * 1024) (file_size - 1024) - pos - actual_count)"
  proof (intro exI conjI)
    show "protect_region_check tp cur file_size pos destroy_count
       = Inr ((a, min destroy_count ?av), c)" by (rule r(1))
    show "pos \<le> a" by (rule r(2))
    show "a + min destroy_count ?av \<le> file_size - 1024" using r le by linarith
    show "min destroy_count ?av \<le> destroy_count" by simp
    show "0 \<le> a - pos" using r by simp
    show "a - pos \<le> ?av - min destroy_count ?av" by (rule r(3))
    show "\<forall>step_kb>0. a - pos \<le> min (pos + step_kb * 1024) (file_size - 1024) - pos - min destroy_count ?av"
    proof (intro allI impI)
      fix step_kb :: int assume "0 < step_kb"
      with wide have "?av \<le> min (pos + step_kb * 1024) (file_size - 1024) - pos" by blast
      with r(3) show "a - pos \<le> min (pos + step_kb * 1024) (file_size - 1024) - pos - min destroy_count ?av"
        by linarith
    qed
  qed
qed

text \<open>A 3000-byte file: window starts 1000 and 1976 are outside, 1024 is inside.\<close>
theorem planner_stays_in_safe_region_witness:
  "(2048::int) < 3000 \<and> (0::int) < 4
   \<and> protect_region_check count_tape 7 3000 1000 4 = Inr ((0, 0), 7)
   \<and> protect_region_check count_tape 7 3000 1976 4 = Inr ((0, 0), 7)
   \<and> protect_region_check count_tape 7 3000 1024 4 = Inr ((1031, 4), 8)
   \<and> (1024::int) \<le> 1031 \<and> (1031::int) + 4 \<le> 3000 - 1024 \<and> (4::int) \<le> 4
   \<and> (1031::int) - 1024 \<le> available_range 3000 1024 - 4"
proof -
  have h: "(2048::int) < 3000" "(0::int) < 4" by simp_all
  have out1: "protect_region_check count_tape 7 3000 1000 4 = Inr ((0, 0), 7)"
    using planner_stays_in_safe_region [OF h, of 1000 count_tape 7] by simp
  have out2: "protect_region_check count_tape 7 3000 1976 4 = Inr ((0, 0), 7)"
    using planner_stays_in_safe_region [OF h, of 1976 count_tape 7] by simp
  have run: "protect_region_check count_tape 7 3000 1024 4 = Inr ((1031, 4), 8)"
    by (simp add: protect_region_check_def available_range_def randint_def count_tape_def)
  from planner_stays_in_safe_region [OF h, of 1024 count_tape 7] run
  have "(1024::int) \<le> 1031 \<and> (1031::int) + 4 \<le> 3000 - 1024 \<and> (4::int) \<le> 4
     \<and> (1031::int) - 1024 \<le> available_range 3000 1024 - 4"
    by simp
  with out1 out2 run show ?thesis by simp
qed

text \<open>
  Claim C9. Whatever \<^verbatim>\<open>corrupt_file\<close> returns, normally or with an exception raised
  during the walk, the file has the length it had. A step writes as many bytes as it
  read, at the offset it read them from, and the write leaves the length alone. The
  call returns whenever the random tape is fair.
\<close>
theorem file_size_invariant:
  "(\<forall>r w'. corrupt_file ev step_kb destroy_bytes make_backup w = Some (r, w') \<longrightarrow>
        length (target w') = length (target w))
   \<and> (\<forall>pos a n cur1 new_bytes cur2.
        protect_region_check (rnd ev) (cursor w) (int (length (target w))) pos destroy_bytes
          = Inr ((a, n), cur1) \<and> 0 < n
        \<and> mutate_bytes (rnd ev) cur1 (f_read (target w) a n) = Some (new_bytes, cur2) \<longrightarrow>
          length new_bytes = length (f_read (target w) a n)
          \<and> length (f_write (target w) a new_bytes) = length (target w))
   \<and> (fair (rnd ev) \<longrightarrow>
        (\<exists>r w'. corrupt_file ev step_kb destroy_bytes make_backup w = Some (r, w')))"
proof (intro conjI allI impI)
  fix r w' assume "corrupt_file ev step_kb destroy_bytes make_backup w = Some (r, w')"
  from corrupt_file_frame [OF this] show "length (target w') = length (target w)"
    by (simp add: protected_equal_def)
next
  fix pos a n cur1 new_bytes cur2
  assume s: "protect_region_check (rnd ev) (cursor w) (int (length (target w))) pos destroy_bytes
          = Inr ((a, n), cur1) \<and> 0 < n
        \<and> mutate_bytes (rnd ev) cur1 (f_read (target w) a n) = Some (new_bytes, cur2)"
  then show "length new_bytes = length (f_read (target w) a n)" using mutate_length by blast
  from s step_write_protected(2) [of "rnd ev" "cursor w" "target w" pos destroy_bytes a n cur1 new_bytes cur2]
  show "length (f_write (target w) a new_bytes) = length (target w)"
    by (simp add: protected_equal_def)
next
  assume "fair (rnd ev)"
  then show "\<exists>r w'. corrupt_file ev step_kb destroy_bytes make_backup w = Some (r, w')"
    by (rule corrupt_file_returns)
qed

text \<open>
  A run that aborts in its first step, after two of the four bytes were written: the
  content changed, the length did not.
\<close>
theorem file_size_invariant_witness:
  "corrupt_file torn_env 1 4 False (zero_file 3000) = Some (Inl OSError, torn_result)
   \<and> length (target torn_result) = length (target (zero_file 3000))
   \<and> target torn_result \<noteq> target (zero_file 3000)
   \<and> fair (rnd torn_env)
   \<and> protect_region_check (rnd torn_env) (cursor (zero_file 3000))
        (int (length (target (zero_file 3000)))) 1024 4 = Inr ((1024, 4), 1)
   \<and> (0::int) < 4
   \<and> mutate_bytes (rnd torn_env) 1 (f_read (target (zero_file 3000)) 1024 4) = Some ([1, 2, 3, 4], 5)
   \<and> length [1, 2, 3, 4 :: byte] = length (f_read (target (zero_file 3000)) 1024 4)
   \<and> length (f_write (target (zero_file 3000)) 1024 [1, 2, 3, 4]) = length (target (zero_file 3000))"
proof -
  have run: "corrupt_file torn_env 1 4 False (zero_file 3000) = Some (Inl OSError, torn_result)"
    by (simp add: torn_run torn_result_def)
  have f: "fair (rnd torn_env)" by (simp add: torn_env_def fair_count_tape)
  have p: "protect_region_check (rnd torn_env) (cursor (zero_file 3000))
        (int (length (target (zero_file 3000)))) 1024 4 = Inr ((1024, 4), 1)"
    by (simp add: torn_env_def zero_file_def sample_plan)
  have m: "mutate_bytes (rnd torn_env) 1 (f_read (target (zero_file 3000)) 1024 4) = Some ([1, 2, 3, 4], 5)"
    using sample_mutate by (simp add: torn_env_def zero_file_def f_read_def)
  have d: "target torn_result \<noteq> target (zero_file 3000)"
  proof
    assume "target torn_result = target (zero_file 3000)"
    then have "target torn_result ! 1024 = target (zero_file 3000) ! 1024" by simp
    then show False by (simp add: torn_result_def zero_file_def nth_append)
  qed
  note t = file_size_invariant [of torn_env 1 4 False "zero_file 3000"]
  from t run have "length (target torn_result) = length (target (zero_file 3000))" by blast
  moreover from t p m have "length [1, 2, 3, 4 :: byte] = length (f_read (target (zero_file 3000)) 1024 4)
     \<and> length (f_write (target (zero_file 3000)) 1024 [1, 2, 3, 4]) = length (target (zero_file 3000))"
    by (metis zero_less_numeral)
  ultimately show ?thesis using run f p m d by simp
qed

subsection \<open>Runs that complete\<close>

lemma planner_total:
  assumes "2048 < file_size"
  shows "\<exists>a n c. protect_region_check tp cur file_size pos d = Inr ((a, n), c)"
proof (cases "pos < 1024 \<or> file_size - 1024 \<le> pos")
  case True
  from planner_outside [OF assms True] show ?thesis by blast
next
  case False
  then have "1024 \<le> pos" "pos < file_size - 1024" by simp_all
  from planner_inside [OF assms this, of tp cur d] show ?thesis by blast
qed

lemma walk_steps_completes:
  assumes "2048 < file_size" "fair (rnd ev)" "\<forall>i. io ev i = IoOk"
  shows "\<exists>w'. walk_steps ev file_size step_bytes d idxs w = Some (Inr (), w')"
proof (induction idxs arbitrary: w)
  case Nil
  show ?case by simp
next
  case (Cons step_idx later)
  let ?pos = "1024 + int step_idx * step_bytes"
  from planner_total [OF assms(1)] obtain a n c where
    p: "protect_region_check (rnd ev) (cursor w) file_size ?pos d = Inr ((a, n), c)" by blast
  let ?w1 = "w\<lparr>cursor := c, steps := steps w @ [(?pos, a, n)]\<rparr>"
  show ?case
  proof (cases "n \<le> 0")
    case True
    from Cons [of ?w1] obtain w' where
      "walk_steps ev file_size step_bytes d later ?w1 = Some (Inr (), w')" by blast
    with p True show ?thesis by simp
  next
    case False
    from mutate_returns [OF assms(2), of c "f_read (target w) a n"] obtain new_bytes c2 where
      m: "mutate_bytes (rnd ev) c (f_read (target w) a n) = Some (new_bytes, c2)" by auto
    let ?w2 = "?w1\<lparr>cursor := c2, target := f_write (target w) a new_bytes\<rparr>"
    from Cons [of ?w2] obtain w' where
      "walk_steps ev file_size step_bytes d later ?w2 = Some (Inr (), w')" by blast
    with p False m assms(3) show ?thesis by (simp add: Let_def)
  qed
qed

lemma corrupt_file_completes:
  assumes "2048 < length (target w)" "step_kb \<noteq> 0" "fair (rnd ev)" "no_faults ev"
    "make_backup \<and> copy_fails ev \<longrightarrow> fst (ask_yes_no (Some False) (stdin w)) = Inr True"
  shows "\<exists>w'. corrupt_file ev step_kb d make_backup w = Some (Inr (), w')"
proof -
  have fs: "2048 < int (length (target w))" using assms(1) by simp
  have io: "\<forall>i. io ev i = IoOk" "\<not> open_fails ev" using assms(4) by (simp_all add: no_faults_def)
  have walk: "\<And>v. \<exists>w'. walk_file ev (int (length (target w))) (step_kb * 1024) d v = Some (Inr (), w')"
    using walk_steps_completes [OF fs assms(3) io(1)] io(2) by (simp add: walk_file_def)
  show ?thesis
  proof (cases "make_backup \<and> copy_fails ev")
    case True
    with assms(5) obtain rs where "ask_yes_no (Some False) (stdin w) = (Inr True, rs)"
      by (cases "ask_yes_no (Some False) (stdin w)") auto
    with True assms(2) walk [of "w\<lparr>stdin := rs\<rparr>"] show ?thesis
      by (simp add: corrupt_file_def)
  next
    case False
    then show ?thesis
      using assms(2) walk [of "w\<lparr>backup := Some (target w)\<rparr>"] walk [of w]
      by (auto simp: corrupt_file_def Let_def)
  qed
qed

lemma not_declined:
  "make_backup \<and> copy_fails ev \<longrightarrow> fst (ask_yes_no (Some False) (stdin w)) = Inr True \<Longrightarrow>
     \<not> backup_declined ev make_backup w"
  by (auto simp: backup_declined_def)

text \<open>
  Claim C7. On a file of more than 2048 bytes with a positive step and destroy count,
  \<^verbatim>\<open>total_steps\<close> is the ceiling of \<open>(file_size - 2048) / step_bytes\<close>. Whatever
  the call returns, the walk performed at most that many steps, step \<open>i\<close> had the
  window start \<open>1024 + i * step_bytes\<close>, and a call that returned normally after
  walking performed exactly that many. When the random tape is fair, no operation on
  the file fails and a failed backup is overridden, the call does return normally,
  having performed exactly \<open>total_steps\<close> steps at those window starts.
\<close>

theorem walker_steps:
  assumes "2048 < length (target w)" "0 < step_kb" "0 < destroy_bytes" "steps w = []"
  shows "total_steps (int (length (target w))) (step_kb * 1024)
           = \<lceil>real_of_int (int (length (target w)) - 2048) / real_of_int (step_kb * 1024)\<rceil>
       \<and> (\<forall>r w'. corrupt_file ev step_kb destroy_bytes make_backup w = Some (r, w') \<longrightarrow>
             int (length (steps w')) \<le> total_steps (int (length (target w))) (step_kb * 1024)
             \<and> (\<forall>i<length (steps w'). fst (steps w' ! i) = 1024 + int i * (step_kb * 1024))
             \<and> (r = Inr () \<and> \<not> backup_declined ev make_backup w \<longrightarrow>
                  int (length (steps w')) = total_steps (int (length (target w))) (step_kb * 1024)))
       \<and> (fair (rnd ev) \<and> no_faults ev
           \<and> (make_backup \<and> copy_fails ev \<longrightarrow> fst (ask_yes_no (Some False) (stdin w)) = Inr True) \<longrightarrow>
             (\<exists>w'. corrupt_file ev step_kb destroy_bytes make_backup w = Some (Inr (), w')
                \<and> int (length (steps w')) = total_steps (int (length (target w))) (step_kb * 1024)
                \<and> (\<forall>i<length (steps w'). fst (steps w' ! i) = 1024 + int i * (step_kb * 1024))))"
proof -
  let ?n = "total_steps (int (length (target w))) (step_kb * 1024)"
  have nz: "step_kb * 1024 \<noteq> 0" "step_kb \<noteq> 0" using assms(2) by simp_all
  have c: "?n = \<lceil>real_of_int (int (length (target w)) - 2048) / real_of_int (step_kb * 1024)\<rceil>"
    using nz(1) by (rule total_steps_ceiling)
  have pos: "0 \<le> ?n" using assms(1,2) by (simp add: total_steps_def pos_imp_zdiv_nonneg_iff)
  have part: "int (length (steps w')) \<le> ?n
             \<and> (\<forall>i<length (steps w'). fst (steps w' ! i) = 1024 + int i * (step_kb * 1024))
             \<and> (r = Inr () \<and> \<not> backup_declined ev make_backup w \<longrightarrow> int (length (steps w')) = ?n)"
    if run: "corrupt_file ev step_kb destroy_bytes make_backup w = Some (r, w')" for r w'
  proof -
    from corrupt_file_log [OF run assms(4)] obtain k where k: "k \<le> nat ?n"
      "map fst (steps w') = map (\<lambda>i. 1024 + int i * (step_kb * 1024)) [0..<k]"
      "r = Inr () \<and> \<not> backup_declined ev make_backup w \<longrightarrow> k = nat ?n" by blast
    from k(2) have len: "length (steps w') = k" using length_map [of fst "steps w'"] by simp
    have "\<forall>i<length (steps w'). fst (steps w' ! i) = 1024 + int i * (step_kb * 1024)"
    proof (intro allI impI)
      fix i assume i: "i < length (steps w')"
      then have "fst (steps w' ! i) = map fst (steps w') ! i" by simp
      also have "\<dots> = 1024 + int i * (step_kb * 1024)" using i len unfolding k(2) by simp
      finally show "fst (steps w' ! i) = 1024 + int i * (step_kb * 1024)" .
    qed
    moreover have "int (length (steps w')) \<le> ?n" using k(1) len pos by linarith
    moreover have "r = Inr () \<and> \<not> backup_declined ev make_backup w \<longrightarrow> int (length (steps w')) = ?n"
      using k(3) len pos by auto
    ultimately show ?thesis by blast
  qed
  have total: "\<exists>w'. corrupt_file ev step_kb destroy_bytes make_backup w = Some (Inr (), w')
                \<and> int (length (steps w')) = ?n
                \<and> (\<forall>i<length (steps w'). fst (steps w' ! i) = 1024 + int i * (step_kb * 1024))"
    if h: "fair (rnd ev) \<and> no_faults ev
           \<and> (make_backup \<and> copy_fails ev \<longrightarrow> fst (ask_yes_no (Some False) (stdin w)) = Inr True)"
  proof -
    from h corrupt_file_completes [OF assms(1) nz(2), of ev make_backup destroy_bytes]
    obtain w' where run: "corrupt_file ev step_kb destroy_bytes make_backup w = Some (Inr (), w')"
      by blast
    from h have "\<not> backup_declined ev make_backup w" by (intro not_declined) simp
    with part [OF run] run show ?thesis by blast
  qed
  from c part total show ?thesis by blast
qed

text \<open>
  A 5000-byte file with step 1 KB: three steps, with windows starting at 1024, 2048 and
  3072. The 3000-byte file: one step, its window starts at 1024.
\<close>

theorem walker_steps_witness:
  "2048 < length (target (zero_file 5000)) \<and> (0::int) < 1 \<and> (0::int) < 4
   \<and> steps (zero_file 5000) = []
   \<and> fair (rnd quiet_env) \<and> no_faults quiet_env \<and> \<not> copy_fails quiet_env
   \<and> total_steps (int (length (target (zero_file 5000)))) (1 * 1024) = 3
   \<and> \<lceil>real_of_int (int (length (target (zero_file 5000))) - 2048) / real_of_int (1 * 1024)\<rceil> = 3
   \<and> (\<exists>w'. corrupt_file quiet_env 1 4 True (zero_file 5000) = Some (Inr (), w')
          \<and> map fst (steps w') = [1024, 2048, 3072])
   \<and> 2048 < length (target (zero_file 3000)) \<and> steps (zero_file 3000) = []
   \<and> corrupt_file quiet_env 1 4 True (zero_file 3000) = Some (Inr (), sample_result)
   \<and> \<not> backup_declined quiet_env True (zero_file 3000)
   \<and> total_steps (int (length (target (zero_file 3000)))) (1 * 1024) = 1
   \<and> int (length (steps sample_result)) = 1
   \<and> fst (steps sample_result ! 0) = 1024"
proof -
  have h5: "2048 < length (target (zero_file 5000))" "(0::int) < 1" "(0::int) < 4"
    "steps (zero_file 5000) = []"
    by (simp_all add: zero_file_def)
  have e: "fair (rnd quiet_env)" "no_faults quiet_env" "\<not> copy_fails quiet_env"
    by (simp_all add: quiet_env_def fair_count_tape no_faults_def)
  have t5: "total_steps (int (length (target (zero_file 5000)))) (1 * 1024) = 3"
    by (simp add: total_steps_def zero_file_def)
  note a = walker_steps [OF h5, of quiet_env True]
  from a t5 have c5: "\<lceil>real_of_int (int (length (target (zero_file 5000))) - 2048) / real_of_int (1 * 1024)\<rceil> = 3"
    by simp
  from a e obtain w' where w': "corrupt_file quiet_env 1 4 True (zero_file 5000) = Some (Inr (), w')"
    "int (length (steps w')) = total_steps (int (length (target (zero_file 5000)))) (1 * 1024)"
    "\<forall>i<length (steps w'). fst (steps w' ! i) = 1024 + int i * (1 * 1024)"
    by blast
  from w'(2) t5 have l: "length (steps w') = 3" by simp
  have "map fst (steps w') = [1024, 2048, 3072]"
  proof (rule nth_equalityI)
    show "length (map fst (steps w')) = length [1024, 2048, 3072 :: int]" using l by simp
  next
    fix i assume "i < length (map fst (steps w'))"
    then have i: "i < 3" using l by simp
    then have "fst (steps w' ! i) = 1024 + int i * (1 * 1024)" using w'(3) l by simp
    moreover from i have "i = 0 \<or> i = 1 \<or> i = 2" by linarith
    ultimately show "map fst (steps w') ! i = [1024, 2048, 3072] ! i" using i l by auto
  qed
  with w'(1) have x: "\<exists>w'. corrupt_file quiet_env 1 4 True (zero_file 5000) = Some (Inr (), w')
          \<and> map fst (steps w') = [1024, 2048, 3072]" by (intro exI [of _ w']) simp
  have h3: "2048 < length (target (zero_file 3000))" "(0::int) < 1" "(0::int) < 4"
    "steps (zero_file 3000) = []"
    by (simp_all add: zero_file_def)
  have run: "corrupt_file quiet_env 1 4 True (zero_file 3000) = Some (Inr (), sample_result)"
    by (simp add: sample_run sample_result_def)
  have nd: "\<not> backup_declined quiet_env True (zero_file 3000)"
    by (simp add: backup_declined_def quiet_env_def)
  have t1: "total_steps (int (length (target (zero_file 3000)))) (1 * 1024) = 1"
    by (simp add: total_steps_def zero_file_def)
  note b = walker_steps [OF h3, of quiet_env True]
  from b run nd t1 have l1: "int (length (steps sample_result)) = 1" by simp
  from b run l1 have f1: "fst (steps sample_result ! 0) = 1024" by simp
  from h5 e t5 c5 x h3 run nd t1 l1 f1 show ?thesis by simp
qed

section \<open>Size literals: integers below \<open>2 ^ 53\<close> are exact\<close>

lemma bits_bounds: "0 < n \<Longrightarrow> 2 ^ (bits n - 1) \<le> n \<and> n < 2 ^ bits n"
proof (induction n rule: bits.induct)
  case (1 n)
  show ?case
  proof (cases "n div 2 = 0")
    case True
    with 1(2) have "n = 1" by (auto simp: div_eq_0_iff)
    then show ?thesis by (simp add: bits.simps)
  next
    case False
    with 1 have ih: "2 ^ (bits (n div 2) - 1) \<le> n div 2" "n div 2 < 2 ^ bits (n div 2)" by simp_all
    have b: "bits n = Suc (bits (n div 2))" using 1(2) by (subst bits.simps) simp
    have p: "0 < bits (n div 2)" using False by (subst bits.simps) simp
    then have "(2::nat) ^ (bits n - 1) = 2 * 2 ^ (bits (n div 2) - 1)"
      using b by (cases "bits (n div 2)") simp_all
    moreover have "2 * (n div 2) \<le> n" "n < 2 * (n div 2) + 2" by presburger+
    ultimately show ?thesis using ih b by simp linarith
  qed
qed

lemma bits_le: "n < 2 ^ k \<Longrightarrow> bits n \<le> k"
proof (rule ccontr)
  assume n: "n < 2 ^ k" and "\<not> bits n \<le> k"
  then have k: "k \<le> bits n - 1" by simp
  then have "0 < n" using \<open>\<not> bits n \<le> k\<close> by (cases "n = 0") (simp_all add: bits.simps)
  from bits_bounds [OF this] have "2 ^ (bits n - 1) \<le> n" by simp
  moreover have "(2::nat) ^ k \<le> 2 ^ (bits n - 1)" using k by (simp add: power_increasing)
  ultimately show False using n by linarith
qed

lemma bits_pos: "0 < n \<Longrightarrow> 0 < bits n"
  by (subst bits.simps) simp

lemma bits_one: "bits (Suc 0) = Suc 0"
  by (simp add: bits.simps)

lemma rne_div_one: "rne_div n (Suc 0) = n"
  by (simp add: rne_div_def)

lemma ilog2_nat: "0 < n \<Longrightarrow> ilog2 n (Suc 0) = int (bits n) - 1"
  using bits_bounds [of n] bits_pos [of n]
  by (simp add: ilog2_def bits_one Let_def nat_diff_distrib)

lemma to_double_nat:
  assumes "0 < n" "n < 2 ^ 53"
  shows "to_double n (Suc 0) = Finite (n * 2 ^ (53 - bits n)) (int (bits n) - 53)"
proof -
  have b: "bits n \<le> 53" "0 < bits n" using assms by (simp_all add: bits_le bits_pos)
  let ?u = "int (bits n) - 53"
  have u: "max (ilog2 n (Suc 0) - 52) (- 1074) = ?u" using assms b by (simp add: ilog2_nat)
  have n: "nat (- ?u) = 53 - bits n" using b by simp
  have big: "\<not> (2::nat) ^ 1024 \<le> n"
  proof -
    have "(2::nat) ^ 53 \<le> 2 ^ 1024" by (rule power_increasing) simp_all
    with assms show ?thesis by simp
  qed
  show ?thesis
  proof (cases "bits n = 53")
    case True
    then show ?thesis using assms u big by (simp add: to_double_def Let_def rne_div_one)
  next
    case False
    with b have "?u < 0" by simp
    then show ?thesis using assms u n by (simp add: to_double_def Let_def rne_div_one)
  qed
qed

lemma int_of_float_nat:
  assumes "n < 2 ^ 53"
  shows "int_of_float (to_double n (Suc 0)) = Inr (int n)"
proof (cases "n = 0")
  case True
  then show ?thesis by (simp add: to_double_def int_of_float_def)
next
  case False
  then have p: "0 < n" by simp
  have b: "bits n \<le> 53" using assms by (simp add: bits_le)
  have n: "nat (53 - int (bits n)) = 53 - bits n" using b by simp
  show ?thesis
    using b n by (simp add: to_double_nat [OF p assms] int_of_float_def)
qed

lemma scale_up:
  assumes "bits n \<le> 53" "43 \<le> bits n"
  shows "n * 2 ^ (53 - bits n) * 2 ^ (bits n - 43) = n * 1024"
proof -
  have "(53 - bits n) + (bits n - 43) = 10" using assms by simp
  then have "(2::nat) ^ (53 - bits n) * 2 ^ (bits n - 43) = 2 ^ 10"
    unfolding power_add [symmetric] by simp
  then have "n * ((2::nat) ^ (53 - bits n) * 2 ^ (bits n - 43)) = n * 2 ^ 10" by simp
  then show ?thesis by (simp only: mult.assoc) simp
qed

lemma scale_down:
  assumes "bits n < 43"
  shows "n * 2 ^ (53 - bits n) div 2 ^ (43 - bits n) = n * 1024"
proof -
  have "53 - bits n = 10 + (43 - bits n)" using assms by simp
  then have "(2::nat) ^ (53 - bits n) = 2 ^ (10 + (43 - bits n))" by (rule arg_cong)
  also have "\<dots> = 1024 * 2 ^ (43 - bits n)" by (simp only: power_add) simp
  finally have e: "(2::nat) ^ (53 - bits n) = 1024 * 2 ^ (43 - bits n)" .
  have "n * 2 ^ (53 - bits n) div 2 ^ (43 - bits n)
      = (n * 1024) * 2 ^ (43 - bits n) div 2 ^ (43 - bits n)"
    by (simp only: e mult.assoc)
  also have "\<dots> = n * 1024" by (rule div_mult_self_is_m) simp
  finally show ?thesis .
qed

lemma below_overflow:
  assumes "n < 2 ^ 53"
  shows "\<not> (2::nat) ^ 1024 \<le> n * 1024"
proof -
  have "n * 1024 < 2 ^ 53 * 1024" using assms by simp
  also have "(2::nat) ^ 53 * 1024 = 2 ^ 63" by simp
  also have "(2::nat) ^ 63 \<le> 2 ^ 1024" by (rule power_increasing) simp_all
  finally show ?thesis by simp
qed

lemma int_of_float_nat_kb:
  assumes "n < 2 ^ 53"
  shows "int_of_float (float_times_1024 (to_double n (Suc 0))) = Inr (int n * 1024)"
proof (cases "n = 0")
  case True
  then show ?thesis by (simp add: to_double_def int_of_float_def float_times_1024_def)
next
  case False
  then have p: "0 < n" by simp
  have b: "bits n \<le> 53" using assms by (simp add: bits_le)
  define m where "m = n * 2 ^ (53 - bits n)"
  define e where "e = int (bits n) - 53 + 10"
  have td: "to_double n (Suc 0) = Finite m (e - 10)"
    unfolding m_def e_def using to_double_nat [OF p assms] by simp
  have val: "(if 0 \<le> e then m * 2 ^ nat e else m div 2 ^ nat (- e)) = n * 1024"
  proof (cases "0 \<le> e")
    case True
    then have "nat e = bits n - 43" "43 \<le> bits n" unfolding e_def by simp_all
    with True scale_up [OF b] show ?thesis unfolding m_def by simp
  next
    case f: False
    then have "nat (- e) = 43 - bits n" "bits n < 43" unfolding e_def by simp_all
    with f scale_down show ?thesis unfolding m_def by simp
  qed
  have small: "\<not> (0 \<le> e \<and> 2 ^ 1024 \<le> m * 2 ^ nat e)"
    using val below_overflow [OF assms] by auto
  have "float_times_1024 (to_double n (Suc 0)) = Finite m e"
    unfolding td float_times_1024_def using small by simp
  then have "int_of_float (float_times_1024 (to_double n (Suc 0)))
      = Inr (int (if 0 \<le> e then m * 2 ^ nat e else m div 2 ^ nat (- e)))"
    by (simp add: int_of_float_def)
  then show ?thesis unfolding val by simp
qed

subsection \<open>Characters and digit strings\<close>

lemma lower_codes:
  "\<forall>x\<in>set lowercase_letters. 97 \<le> (of_char x :: nat) \<and> ((of_char x :: nat) \<le> 122 \<or> 224 \<le> (of_char x :: nat))"
  by (simp add: lowercase_letters_def)

lemma upper_codes:
  "\<forall>x\<in>set uppercase_letters. 65 \<le> (of_char x :: nat) \<and> (of_char x :: nat) \<le> 222
      \<and> ((of_char x :: nat) \<le> 90 \<or> 192 \<le> (of_char x :: nat))"
  by (simp add: uppercase_letters_def)

lemma letters_length: "length lowercase_letters = length uppercase_letters"
  by (simp add: lowercase_letters_def uppercase_letters_def)

lemma upper_char_fixed:
  assumes "c \<notin> set lowercase_letters" "c \<noteq> CHR 0xDF"
  shows "upper_char c = [c]"
proof -
  have "map_of (zip lowercase_letters uppercase_letters) c = None"
    using assms(1) letters_length by simp
  with assms(2) show ?thesis by (simp add: upper_char_def)
qed

lemma upper_char_by_code:
  assumes "(of_char c :: nat) < 97 \<or> (122 < (of_char c :: nat) \<and> (of_char c :: nat) < 223)"
  shows "upper_char c = [c]"
proof (rule upper_char_fixed)
  show "c \<notin> set lowercase_letters" using lower_codes assms by fastforce
  show "c \<noteq> CHR 0xDF" using assms by auto
qed

lemma upper_digit_or_dot: "isdigit c \<or> c = CHR ''.'' \<Longrightarrow> upper_char c = [c]"
  by (rule upper_char_by_code) (auto simp: isdigit_def isdecimal_def)

lemma upper_char_cases:
  "upper_char c = ''SS'' \<or> upper_char c = [c] \<or> (\<exists>u\<in>set uppercase_letters. upper_char c = [u])"
proof (cases "c = CHR 0xDF")
  case True
  then show ?thesis by (simp add: upper_char_def)
next
  case False
  show ?thesis
  proof (cases "map_of (zip lowercase_letters uppercase_letters) c")
    case None
    with False show ?thesis by (simp add: upper_char_def)
  next
    case (Some u)
    then have "(c, u) \<in> set (zip lowercase_letters uppercase_letters)" by (rule map_of_SomeD)
    then have "u \<in> set uppercase_letters" by (rule set_zip_rightD)
    with Some False show ?thesis by (simp add: upper_char_def)
  qed
qed

lemma upper_capital: "u \<in> set uppercase_letters \<Longrightarrow> upper_char u = [u]"
  using upper_codes by (intro upper_char_by_code) fastforce

lemma upper_S: "upper_char CHR ''S'' = ''S''"
  by (rule upper_char_by_code) simp

lemma upper_char_image: "x \<in> set (upper_char c) \<Longrightarrow> upper_char x = [x]"
  using upper_char_cases [of c] by (auto simp: upper_S upper_capital)

lemma py_upper_fixed: "\<forall>x\<in>set s. upper_char x = [x] \<Longrightarrow> py_upper s = s"
  by (induction s) (simp_all add: py_upper_def)

lemma py_upper_append: "py_upper (a @ b) = py_upper a @ py_upper b"
  by (simp add: py_upper_def)

lemma py_upper_idem: "py_upper (py_upper s) = py_upper s"
proof (rule py_upper_fixed, rule ballI)
  fix x assume "x \<in> set (py_upper s)"
  then obtain c where "x \<in> set (upper_char c)" by (auto simp: py_upper_def)
  then show "upper_char x = [x]" by (rule upper_char_image)
qed

lemma upper_nondigit:
  assumes "\<not> isdigit c" "c \<noteq> CHR ''.''"
  shows "upper_char c \<noteq> [] \<and> (\<forall>x\<in>set (upper_char c). \<not> isdigit x \<and> x \<noteq> CHR ''.'')"
proof -
  have s: "\<not> isdigit CHR ''S''" by (simp add: isdigit_def isdecimal_def)
  have u: "\<And>u. u \<in> set uppercase_letters \<Longrightarrow> \<not> isdigit u \<and> u \<noteq> CHR ''.''"
    using upper_codes by (fastforce simp: isdigit_def isdecimal_def)
  from upper_char_cases [of c] consider "upper_char c = ''SS''" | "upper_char c = [c]"
    | v where "v \<in> set uppercase_letters" "upper_char c = [v]" by blast
  then show ?thesis
  proof cases
    case 1
    then show ?thesis using s by simp
  next
    case 2
    then show ?thesis using assms by simp
  next
    case 3
    then show ?thesis using u [OF 3(1)] by simp
  qed
qed

lemma decimal_is_digit: "isdecimal c \<Longrightarrow> isdigit c"
  by (simp add: isdigit_def)

lemma decimals_are_digits: "list_all isdecimal ds \<Longrightarrow> list_all (\<lambda>c. isdigit c \<or> c = CHR ''.'') ds"
  by (simp add: list_all_iff decimal_is_digit)

lemma digit_not_space: "isdecimal c \<Longrightarrow> \<not> isspace c" "isdecimal c \<Longrightarrow> \<not> int_space c"
  by (auto simp: isdecimal_def isspace_def int_space_def)

lemma upper_digits: "list_all (\<lambda>c. isdigit c \<or> c = CHR ''.'') ds \<Longrightarrow> py_upper ds = ds"
  by (rule py_upper_fixed) (auto simp: list_all_iff upper_digit_or_dot)

lemma strip_keeps:
  assumes "s \<noteq> []" "\<not> p (hd s)" "\<not> p (last s)"
  shows "strip_chars p s = s"
proof -
  have 1: "dropWhile p s = s" using assms by (cases s) simp_all
  have r: "rev s = last s # rev (butlast s)"
    using assms(1) by (cases s rule: rev_cases) simp_all
  have 2: "dropWhile p (rev s) = rev s"
    unfolding r using assms(3) by simp
  show ?thesis by (simp add: strip_chars_def 1 2)
qed

lemma scan_digits:
  "list_all (\<lambda>c. isdigit c \<or> c = CHR ''.'') ds \<Longrightarrow>
     scan_size s (ds @ rest) num = scan_size s rest (num @ ds)"
  by (induction ds arbitrary: num) simp_all

lemma index_after_prefix:
  "\<forall>x\<in>set ds. x \<noteq> c \<Longrightarrow> str_index (ds @ c # cs) c = length ds"
  by (simp add: str_index_def)

lemma float_digits:
  "ds \<noteq> [] \<Longrightarrow> list_all isdecimal ds \<Longrightarrow> py_float ds = Inr (to_double (decimal ds) (Suc 0))"
proof -
  assume n: "ds \<noteq> []" and d: "list_all isdecimal ds"
  then have t: "takeWhile isdecimal ds = ds" "dropWhile isdecimal ds = []"
    by (simp_all add: list_all_iff)
  show ?thesis unfolding py_float_def Let_def t using n by simp
qed

lemma int_digits_letter:
  "list_all isdecimal ds \<Longrightarrow> \<not> isdecimal c \<Longrightarrow> c \<noteq> CHR ''_'' \<Longrightarrow>
     int_digits (ds @ c # cs) prev acc = None"
  by (induction ds arbitrary: prev acc) simp_all

lemma int_digits_all:
  "list_all isdecimal ds \<Longrightarrow> ds \<noteq> [] \<or> prev \<Longrightarrow>
     int_digits ds prev acc = Some (foldl (\<lambda>acc c. acc * 10 + digit_value c) acc ds)"
  by (induction ds arbitrary: prev acc) simp_all

text \<open>The unit of a literal, without the loop: what follows the leading digits and dots.\<close>

lemma size_unit_split:
  assumes "py_strip s = num @ rest" "list_all (\<lambda>c. isdigit c \<or> c = CHR ''.'') num"
    "rest \<noteq> []" "\<not> isdigit (hd rest)" "hd rest \<noteq> CHR ''.''"
  shows "scan_size (py_upper (py_strip s)) (py_upper (py_strip s)) [] = (num, py_upper rest)"
proof -
  obtain c cs where rest: "rest = c # cs" using assms(3) by (cases rest) simp_all
  with assms have c: "\<not> isdigit c" "c \<noteq> CHR ''.''" by simp_all
  from upper_nondigit [OF c] obtain x xs where x: "upper_char c = x # xs"
    "\<not> isdigit x" "x \<noteq> CHR ''.''" by (cases "upper_char c") auto
  define tl' where "tl' = xs @ py_upper cs"
  have ur: "py_upper rest = x # tl'" by (simp add: rest py_upper_def x tl'_def)
  have up: "py_upper (py_strip s) = num @ x # tl'"
    unfolding assms(1) py_upper_append upper_digits [OF assms(2)] ur ..
  have nx: "\<forall>d\<in>set num. d \<noteq> x" using assms(2) x by (auto simp: list_all_iff)
  have "scan_size (num @ x # tl') (num @ x # tl') [] = scan_size (num @ x # tl') (x # tl') num"
    using scan_digits [OF assms(2), of "num @ x # tl'" "x # tl'" "[]"] by simp
  also have "\<dots> = (num, py_upper (drop (str_index (num @ x # tl') x) (num @ x # tl')))"
    using x by simp
  also have "\<dots> = (num, py_upper (x # tl'))"
    by (simp add: index_after_prefix [OF nx])
  also have "\<dots> = (num, py_upper rest)"
    unfolding ur [symmetric] py_upper_idem ..
  finally show ?thesis unfolding up .
qed

lemma size_unit_none:
  assumes "list_all (\<lambda>c. isdigit c \<or> c = CHR ''.'') (py_strip s)"
  shows "scan_size (py_upper (py_strip s)) (py_upper (py_strip s)) [] = (py_strip s, ''KB'')"
  using scan_digits [OF assms, of "py_strip s" "[]" "[]"] by (simp add: upper_digits [OF assms])

subsection \<open>Literals of digits with a unit\<close>

lemma letter_B: "\<not> isdecimal CHR ''B''" "\<not> isspace CHR ''B''" "\<not> int_space CHR ''B''"
  "\<not> isdigit CHR ''B''" "\<not> isdigit CHR ''K''" "upper_char CHR ''B'' = ''B''" "upper_char CHR ''K'' = ''K''"
  by (simp_all add: isdigit_def isdecimal_def isspace_def int_space_def upper_char_by_code)

lemma strip_digits_suffix:
  assumes "ds \<noteq> []" "list_all isdecimal ds" "sfx = [] \<or> \<not> isspace (last sfx)"
  shows "py_strip (ds @ sfx) = ds @ sfx"
proof -
  have h: "\<not> isspace (hd (ds @ sfx))" using assms(1,2) by (cases ds) (simp_all add: digit_not_space)
  have "isdecimal (last ds)" using assms(1,2) by (simp add: list_all_iff)
  then have l: "\<not> isspace (last (ds @ sfx))"
    using assms(1,3) by (cases "sfx = []") (simp_all add: digit_not_space)
  show ?thesis unfolding py_strip_def using assms(1) h l by (intro strip_keeps) simp_all
qed

lemma int_strip_digits_suffix:
  assumes "ds \<noteq> []" "list_all isdecimal ds" "sfx = [] \<or> \<not> int_space (last sfx)"
  shows "strip_chars int_space (ds @ sfx) = ds @ sfx"
proof -
  have h: "\<not> int_space (hd (ds @ sfx))" using assms(1,2) by (cases ds) (simp_all add: digit_not_space)
  have "isdecimal (last ds)" using assms(1,2) by (simp add: list_all_iff)
  then have l: "\<not> int_space (last (ds @ sfx))"
    using assms(1,3) by (cases "sfx = []") (simp_all add: digit_not_space)
  show ?thesis using assms(1) h l by (intro strip_keeps) simp_all
qed

lemma py_float_error: "py_float num = Inl e \<Longrightarrow> e = ValueError"
  by (auto simp: py_float_def Let_def split: if_splits)

lemma parse_rejects_unit:
  "size_unit s \<noteq> ''KB'' \<Longrightarrow> size_unit s \<noteq> ''B'' \<Longrightarrow> parse_size_str s = Inl ValueError"
  by (auto simp: parse_size_str_def size_unit_def Let_def split: prod.splits sum.splits
      dest: py_float_error)

lemma parse_rejects_other_unit:
  assumes "py_strip s = num @ rest" "list_all (\<lambda>c. isdigit c \<or> c = CHR ''.'') num"
    "rest \<noteq> []" "\<not> isdigit (hd rest)" "hd rest \<noteq> CHR ''.''"
    "py_upper rest \<noteq> ''KB''" "py_upper rest \<noteq> ''B''"
  shows "parse_size_str s = Inl ValueError"
proof -
  have "size_unit s = py_upper rest"
    unfolding size_unit_def Let_def size_unit_split [OF assms(1-5)] by simp
  with assms(6,7) show ?thesis by (intro parse_rejects_unit) simp_all
qed

lemma parse_decimal_unit:
  assumes "py_strip s = ds @ rest" "ds \<noteq> []" "list_all isdecimal ds" "decimal ds < 2 ^ 53"
    "rest = [] \<or> \<not> isdigit (hd rest) \<and> hd rest \<noteq> CHR ''.''"
  shows "rest = [] \<or> py_upper rest = ''KB'' \<Longrightarrow> parse_size_str s = Inr (int (decimal ds) * 1024)"
    and "py_upper rest = ''B'' \<Longrightarrow> parse_size_str s = Inr (int (decimal ds))"
proof -
  note dd = decimals_are_digits [OF assms(3)]
  have sc: "scan_size (py_upper (py_strip s)) (py_upper (py_strip s)) []
      = (ds, if rest = [] then ''KB'' else py_upper rest)"
  proof (cases "rest = []")
    case True
    then have "list_all (\<lambda>c. isdigit c \<or> c = CHR ''.'') (py_strip s)" using dd assms(1) by simp
    from size_unit_none [OF this] True assms(1) show ?thesis by simp
  next
    case False
    with assms(5) have "\<not> isdigit (hd rest)" "hd rest \<noteq> CHR ''.''" by simp_all
    from size_unit_split [OF assms(1) dd False this] False show ?thesis by simp
  qed
  have fl: "py_float ds = Inr (to_double (decimal ds) (Suc 0))"
    by (rule float_digits [OF assms(2,3)])
  {
    assume "rest = [] \<or> py_upper rest = ''KB''"
    then have "(if rest = [] then ''KB'' else py_upper rest) = ''KB''" by auto
    then show "parse_size_str s = Inr (int (decimal ds) * 1024)"
      unfolding parse_size_str_def Let_def sc
      using assms(2) by (simp add: fl int_of_float_nat_kb [OF assms(4)])
  }
  {
    assume b: "py_upper rest = ''B''"
    then have "rest \<noteq> []" by (auto simp: py_upper_def)
    with b have "(if rest = [] then ''KB'' else py_upper rest) = ''B''" by simp
    then show "parse_size_str s = Inr (int (decimal ds))"
      unfolding parse_size_str_def Let_def sc
      using assms(2) by (simp add: fl int_of_float_nat [OF assms(4)])
  }
qed

lemma parse_digits:
  assumes "ds \<noteq> []" "list_all isdecimal ds" "decimal ds < 2 ^ 53"
  shows "parse_size_str ds = Inr (int (decimal ds) * 1024)"
  using parse_decimal_unit(1) [of ds ds "[]"] strip_digits_suffix [OF assms(1,2), of "[]"] assms
  by simp

lemma parse_digits_B:
  assumes "ds \<noteq> []" "list_all isdecimal ds" "decimal ds < 2 ^ 53"
  shows "parse_size_str (ds @ ''B'') = Inr (int (decimal ds))"
  using parse_decimal_unit(2) [of "ds @ ''B''" ds "''B''"]
    strip_digits_suffix [OF assms(1,2), of "''B''"] assms
  by (simp add: letter_B py_upper_def)

lemma parse_digits_KB:
  assumes "ds \<noteq> []" "list_all isdecimal ds" "decimal ds < 2 ^ 53"
  shows "parse_size_str (ds @ ''KB'') = Inr (int (decimal ds) * 1024)"
  using parse_decimal_unit(1) [of "ds @ ''KB''" ds "''KB''"]
    strip_digits_suffix [OF assms(1,2), of "''KB''"] assms
  by (simp add: letter_B py_upper_def)

lemma int_body_letter:
  "list_all isdecimal ds \<Longrightarrow> \<not> isdecimal c \<Longrightarrow> c \<noteq> CHR ''_'' \<Longrightarrow> int_body (ds @ c # cs) = None"
  by (simp add: int_body_def int_digits_letter)

lemma int_digits_B:
  assumes "ds \<noteq> []" "list_all isdecimal ds"
  shows "py_int (ds @ ''B'') = Inl ValueError" "py_int (ds @ ''KB'') = Inl ValueError"
proof -
  obtain c cs where ds: "ds = c # cs" using assms(1) by (cases ds) simp_all
  then have c: "isdecimal c" using assms(2) by simp
  then have nc: "c \<noteq> CHR ''-''" "c \<noteq> CHR ''+''" by (auto simp: isdecimal_def)
  have k: "\<not> isdecimal CHR ''K''" "\<not> int_space CHR ''K''" by (simp_all add: isdecimal_def int_space_def)
  have "strip_chars int_space (ds @ ''B'') = c # (cs @ ''B'')"
    using int_strip_digits_suffix [OF assms, of "''B''"] ds by (simp add: letter_B)
  moreover have "int_body (ds @ ''B'') = None"
    using int_body_letter [OF assms(2) letter_B(1), of "[]"] by simp
  ultimately show "py_int (ds @ ''B'') = Inl ValueError"
    using nc ds by (simp add: py_int_def)
  have "strip_chars int_space (ds @ ''KB'') = c # (cs @ ''KB'')"
    using int_strip_digits_suffix [OF assms, of "''KB''"] ds by (simp add: letter_B)
  moreover have "int_body (ds @ ''KB'') = None"
    using int_body_letter [OF assms(2) k(1), of "''B''"] by simp
  ultimately show "py_int (ds @ ''KB'') = Inl ValueError"
    using nc ds by (simp add: py_int_def)
qed

lemma int_digits_plain:
  assumes "ds \<noteq> []" "list_all isdecimal ds"
  shows "py_int ds = (if 4300 < length ds then Inl ValueError else Inr (int (decimal ds)))"
proof -
  obtain c cs where ds: "ds = c # cs" using assms(1) by (cases ds) simp_all
  then have c: "isdecimal c" using assms(2) by simp
  then have nc: "c \<noteq> CHR ''-''" "c \<noteq> CHR ''+''" by (auto simp: isdecimal_def)
  have st: "strip_chars int_space ds = c # cs"
    using int_strip_digits_suffix [OF assms, of "[]"] ds by simp
  have f: "filter isdecimal ds = ds" using assms(2) by (simp add: list_all_iff)
  have "int_digits ds False 0 = Some (decimal ds)"
    using int_digits_all [OF assms(2), of False 0] assms(1) by (simp add: decimal_def)
  then have "int_body ds = (if 4300 < length ds then None else Some (decimal ds))"
    by (simp add: int_body_def f)
  then show ?thesis using nc st ds by (simp add: py_int_def)
qed

lemma resolve_digits_B:
  assumes "ds \<noteq> []" "list_all isdecimal ds" "decimal ds < 2 ^ 53"
  shows "resolve_step (ds @ ''B'') = Inr (int (decimal ds) div 1024)"
  by (simp add: resolve_step_def size_to_kb_def int_digits_B [OF assms(1,2)] parse_digits_B [OF assms])

lemma resolve_digits_KB:
  assumes "ds \<noteq> []" "list_all isdecimal ds" "decimal ds < 2 ^ 53"
  shows "resolve_step (ds @ ''KB'') = Inr (int (decimal ds))"
  by (simp add: resolve_step_def size_to_kb_def int_digits_B [OF assms(1,2)] parse_digits_KB [OF assms])

lemma resolve_digits:
  assumes "ds \<noteq> []" "list_all isdecimal ds" "decimal ds < 2 ^ 53"
  shows "resolve_step ds = Inr (int (decimal ds))"
  by (simp add: resolve_step_def size_to_kb_def int_digits_plain [OF assms(1,2)] parse_digits [OF assms])

subsection \<open>Concrete literals and answers\<close>

lemmas char_simps = isdigit_def isdecimal_def isspace_def int_space_def upper_char_def lower_char_def
  lowercase_letters_def uppercase_letters_def py_upper_def py_lower_def
  py_strip_def strip_chars_def str_index_def digit_value_def

lemma digits_2: "''2'' \<noteq> []" "list_all isdecimal ''2''" "decimal ''2'' = 2"
  by (simp_all add: isdecimal_def decimal_def digit_value_def)

lemma digits_512: "''512'' \<noteq> []" "list_all isdecimal ''512''" "decimal ''512'' = 512"
  by (simp_all add: isdecimal_def decimal_def digit_value_def)

lemma yes_confirms: "confirm_action [Line ''y''] = (Inr True, [])"
  by (simp add: confirm_action_def char_simps)

lemma no_declines: "confirm_action [Line ''n''] = (Inr False, [])"
  by (simp add: confirm_action_def char_simps)

lemma no_declines_backup: "ask_yes_no (Some False) [Line ''n''] = (Inr False, [])"
  by (simp add: char_simps)

lemma strip_examples:
  "py_strip ''2KBX'' = ''2'' @ ''KBX''" "py_strip ''1MB'' = ''1'' @ ''MB''"
  "py_strip ''1 KB'' = ''1'' @ '' KB''" "py_strip ''3K'' = ''3'' @ ''K''"
  "py_strip ''1.5GB'' = ''1.5'' @ ''GB''" "py_strip '' 2kb '' = ''2'' @ ''kb''"
  "py_strip (''2KB'' @ [CHR 0xA0]) = ''2'' @ ''KB''" "py_strip ''7b'' = ''7'' @ ''b''"
  by (simp_all add: py_strip_def strip_chars_def isspace_def)

lemma upper_examples:
  "py_upper ''KBX'' = ''KBX''" "py_upper ''MB'' = ''MB''" "py_upper '' KB'' = '' KB''"
  "py_upper ''K'' = ''K''" "py_upper ''GB'' = ''GB''" "py_upper ''kb'' = ''KB''"
  "py_upper ''KB'' = ''KB''" "py_upper ''b'' = ''B''"
  by (simp_all add: py_upper_def upper_char_def lowercase_letters_def uppercase_letters_def)

lemma num_examples:
  "list_all (\<lambda>c. isdigit c \<or> c = CHR ''.'') ''2''" "list_all (\<lambda>c. isdigit c \<or> c = CHR ''.'') ''1''"
  "list_all (\<lambda>c. isdigit c \<or> c = CHR ''.'') ''3''" "list_all (\<lambda>c. isdigit c \<or> c = CHR ''.'') ''1.5''"
  "\<not> isdigit CHR ''K''" "\<not> isdigit CHR ''M''" "\<not> isdigit CHR '' ''" "\<not> isdigit CHR ''G''"
  "\<not> isdigit CHR ''k''" "\<not> isdigit CHR ''b''"
  by (simp_all add: isdigit_def isdecimal_def)

lemma reject_examples:
  "parse_size_str ''2KBX'' = Inl ValueError" "parse_size_str ''1MB'' = Inl ValueError"
  "parse_size_str ''1 KB'' = Inl ValueError" "parse_size_str ''3K'' = Inl ValueError"
  "parse_size_str ''1.5GB'' = Inl ValueError"
  by (rule parse_rejects_other_unit, rule strip_examples; simp add: upper_examples isdigit_def isdecimal_def)+

lemma accept_examples:
  "parse_size_str '' 2kb '' = Inr 2048" "parse_size_str (''2KB'' @ [CHR 0xA0]) = Inr 2048"
  "parse_size_str ''7b'' = Inr 7"
proof -
  have d7: "''7'' \<noteq> []" "list_all isdecimal ''7''" "decimal ''7'' = 7"
    by (simp_all add: isdecimal_def decimal_def digit_value_def)
  show "parse_size_str '' 2kb '' = Inr 2048"
    using parse_decimal_unit(1) [OF strip_examples(6) digits_2(1,2)]
    by (simp add: digits_2 upper_examples isdigit_def isdecimal_def)
  show "parse_size_str (''2KB'' @ [CHR 0xA0]) = Inr 2048"
    using parse_decimal_unit(1) [OF strip_examples(7) digits_2(1,2)]
    by (simp add: digits_2 upper_examples isdigit_def isdecimal_def)
  show "parse_size_str ''7b'' = Inr 7"
    using parse_decimal_unit(2) [OF strip_examples(8) d7(1,2)]
    by (simp add: d7 upper_examples isdigit_def isdecimal_def)
qed

section \<open>The claims about the size literals and the exit status\<close>

text \<open>
  Claim C8. \<^verbatim>\<open>parse_size_str\<close> maps \<^verbatim>\<open>"2KB"\<close> to 2048 and the bare number
  \<^verbatim>\<open>"512"\<close> to 512 * 1024, and on the command line these are steps of 2 KB and of
  512 KB. In general, split the stripped literal into its leading digits and dots and
  the rest, which is empty or starts with another character. When the leading part is
  decimal digits with a value below \<open>2 ^ 53\<close>, an empty rest or a rest that reads
  \<^verbatim>\<open>KB\<close> in capitals gives that many kilobytes and a rest that reads \<^verbatim>\<open>B\<close>
  gives that many bytes. When the rest is not empty and reads neither \<^verbatim>\<open>KB\<close> nor
  \<^verbatim>\<open>B\<close> in capitals, the result is \<^verbatim>\<open>ValueError\<close>, whatever the leading part:
  so for \<^verbatim>\<open>2KBX\<close>, \<^verbatim>\<open>1MB\<close>, \<^verbatim>\<open>1 KB\<close>, \<^verbatim>\<open>3K\<close> and \<^verbatim>\<open>1.5GB\<close>.
  Surrounding whitespace, also a no-break space, and the case of the unit do not matter.
\<close>
theorem parse_size_str_units:
  "parse_size_str ''2KB'' = Inr 2048
   \<and> parse_size_str ''512'' = Inr (512 * 1024)
   \<and> resolve_step ''2KB'' = Inr 2
   \<and> resolve_step ''512'' = Inr 512
   \<and> (\<forall>ds. ds \<noteq> [] \<and> list_all isdecimal ds \<and> decimal ds < 2 ^ 53 \<longrightarrow>
         parse_size_str ds = Inr (int (decimal ds) * 1024)
         \<and> parse_size_str (ds @ ''KB'') = Inr (int (decimal ds) * 1024)
         \<and> parse_size_str (ds @ ''B'') = Inr (int (decimal ds)))
   \<and> (\<forall>s ds rest.
         py_strip s = ds @ rest \<and> ds \<noteq> [] \<and> list_all isdecimal ds \<and> decimal ds < 2 ^ 53
         \<and> (rest = [] \<or> \<not> isdigit (hd rest) \<and> hd rest \<noteq> CHR ''.'') \<longrightarrow>
           (rest = [] \<or> py_upper rest = ''KB'' \<longrightarrow> parse_size_str s = Inr (int (decimal ds) * 1024))
           \<and> (py_upper rest = ''B'' \<longrightarrow> parse_size_str s = Inr (int (decimal ds))))
   \<and> (\<forall>s num rest.
         py_strip s = num @ rest \<and> list_all (\<lambda>c. isdigit c \<or> c = CHR ''.'') num
         \<and> rest \<noteq> [] \<and> \<not> isdigit (hd rest) \<and> hd rest \<noteq> CHR ''.''
         \<and> py_upper rest \<noteq> ''KB'' \<and> py_upper rest \<noteq> ''B'' \<longrightarrow>
           parse_size_str s = Inl ValueError)
   \<and> parse_size_str ''2KBX'' = Inl ValueError
   \<and> parse_size_str ''1MB'' = Inl ValueError
   \<and> parse_size_str ''1 KB'' = Inl ValueError
   \<and> parse_size_str ''3K'' = Inl ValueError
   \<and> parse_size_str ''1.5GB'' = Inl ValueError
   \<and> parse_size_str '' 2kb '' = Inr 2048
   \<and> parse_size_str (''2KB'' @ [CHR 0xA0]) = Inr 2048"
proof -
  have small: "decimal ''2'' < 2 ^ 53" "decimal ''512'' < 2 ^ 53"
    by (simp_all add: digits_2 digits_512)
  have 1: "parse_size_str ''2KB'' = Inr 2048"
    using parse_digits_KB [OF digits_2(1,2) small(1)] by (simp add: digits_2)
  have 2: "parse_size_str ''512'' = Inr (512 * 1024)"
    using parse_digits [OF digits_512(1,2) small(2)] by (simp add: digits_512)
  have 3: "resolve_step ''2KB'' = Inr 2"
    using resolve_digits_KB [OF digits_2(1,2) small(1)] by (simp add: digits_2)
  have 4: "resolve_step ''512'' = Inr 512"
    using resolve_digits [OF digits_512(1,2) small(2)] by (simp add: digits_512)
  have 5: "\<forall>ds. ds \<noteq> [] \<and> list_all isdecimal ds \<and> decimal ds < 2 ^ 53 \<longrightarrow>
         parse_size_str ds = Inr (int (decimal ds) * 1024)
         \<and> parse_size_str (ds @ ''KB'') = Inr (int (decimal ds) * 1024)
         \<and> parse_size_str (ds @ ''B'') = Inr (int (decimal ds))"
    using parse_digits parse_digits_KB parse_digits_B by blast
  have 6: "\<forall>s ds rest.
         py_strip s = ds @ rest \<and> ds \<noteq> [] \<and> list_all isdecimal ds \<and> decimal ds < 2 ^ 53
         \<and> (rest = [] \<or> \<not> isdigit (hd rest) \<and> hd rest \<noteq> CHR ''.'') \<longrightarrow>
           (rest = [] \<or> py_upper rest = ''KB'' \<longrightarrow> parse_size_str s = Inr (int (decimal ds) * 1024))
           \<and> (py_upper rest = ''B'' \<longrightarrow> parse_size_str s = Inr (int (decimal ds)))"
    using parse_decimal_unit by blast
  have 7: "\<forall>s num rest.
         py_strip s = num @ rest \<and> list_all (\<lambda>c. isdigit c \<or> c = CHR ''.'') num
         \<and> rest \<noteq> [] \<and> \<not> isdigit (hd rest) \<and> hd rest \<noteq> CHR ''.''
         \<and> py_upper rest \<noteq> ''KB'' \<and> py_upper rest \<noteq> ''B'' \<longrightarrow>
           parse_size_str s = Inl ValueError"
    using parse_rejects_other_unit by blast
  from 1 2 3 4 5 6 7 reject_examples accept_examples(1,2) show ?thesis by (intro conjI)
qed

text \<open>
  The digits \<^verbatim>\<open>512\<close> with each suffix, \<^verbatim>\<open>7b\<close> with a unit in small letters, and
  \<^verbatim>\<open>1.5GB\<close>, which is refused.
\<close>
theorem parse_size_str_units_witness:
  "''512'' \<noteq> [] \<and> list_all isdecimal ''512'' \<and> decimal ''512'' < 2 ^ 53
   \<and> parse_size_str ''512'' = Inr (512 * 1024)
   \<and> parse_size_str ''512KB'' = Inr (512 * 1024)
   \<and> parse_size_str ''512B'' = Inr 512
   \<and> py_strip ''7b'' = ''7'' @ ''b'' \<and> ''7'' \<noteq> [] \<and> list_all isdecimal ''7'' \<and> decimal ''7'' < 2 ^ 53
   \<and> \<not> isdigit (hd ''b'') \<and> hd ''b'' \<noteq> CHR ''.'' \<and> py_upper ''b'' = ''B''
   \<and> parse_size_str ''7b'' = Inr 7
   \<and> py_strip ''1.5GB'' = ''1.5'' @ ''GB'' \<and> list_all (\<lambda>c. isdigit c \<or> c = CHR ''.'') ''1.5''
   \<and> ''GB'' \<noteq> [] \<and> \<not> isdigit (hd ''GB'') \<and> hd ''GB'' \<noteq> CHR ''.''
   \<and> py_upper ''GB'' \<noteq> ''KB'' \<and> py_upper ''GB'' \<noteq> ''B''
   \<and> parse_size_str ''1.5GB'' = Inl ValueError"
proof -
  note t = parse_size_str_units
  note t5 = t [THEN conjunct2, THEN conjunct2, THEN conjunct2, THEN conjunct2, THEN conjunct1,
      rule_format]
  note t6 = t [THEN conjunct2, THEN conjunct2, THEN conjunct2, THEN conjunct2, THEN conjunct2,
      THEN conjunct1, rule_format]
  note t7 = t [THEN conjunct2, THEN conjunct2, THEN conjunct2, THEN conjunct2, THEN conjunct2,
      THEN conjunct2, THEN conjunct1, rule_format]
  have h: "''512'' \<noteq> [] \<and> list_all isdecimal ''512'' \<and> decimal ''512'' < 2 ^ 53"
    by (simp add: isdecimal_def digits_512(3))
  from t5 [OF h]
  have a: "parse_size_str ''512'' = Inr (512 * 1024) \<and> parse_size_str ''512KB'' = Inr (512 * 1024)
     \<and> parse_size_str ''512B'' = Inr 512"
    by (simp add: digits_512)
  have h7: "py_strip ''7b'' = ''7'' @ ''b'' \<and> ''7'' \<noteq> [] \<and> list_all isdecimal ''7'' \<and> decimal ''7'' < 2 ^ 53
     \<and> (''b'' = [] \<or> \<not> isdigit (hd ''b'') \<and> hd ''b'' \<noteq> CHR ''.'')"
    using strip_examples(8) by (simp add: isdigit_def isdecimal_def decimal_def digit_value_def)
  have u7: "py_upper ''b'' = ''B''" by (rule upper_examples)
  from t6 [OF h7] u7 have b: "parse_size_str ''7b'' = Inr (int (decimal ''7''))" by blast
  then have b': "parse_size_str ''7b'' = Inr 7" by (simp add: decimal_def digit_value_def)
  have hg: "py_strip ''1.5GB'' = ''1.5'' @ ''GB'' \<and> list_all (\<lambda>c. isdigit c \<or> c = CHR ''.'') ''1.5''
     \<and> ''GB'' \<noteq> [] \<and> \<not> isdigit (hd ''GB'') \<and> hd ''GB'' \<noteq> CHR ''.''
     \<and> py_upper ''GB'' \<noteq> ''KB'' \<and> py_upper ''GB'' \<noteq> ''B''"
    using strip_examples(5) by (simp add: upper_examples isdigit_def isdecimal_def)
  from t7 [OF hg] have c: "parse_size_str ''1.5GB'' = Inl ValueError" .
  from h a h7 u7 b' hg c show ?thesis by simp
qed

lemma corrupt_file_zero_step:
  "corrupt_file ev 0 d mb w = Some (Inl ZeroDivisionError, w)"
  by (simp add: corrupt_file_def)

lemma cli_main_confirmed:
  assumes "kind ev = RegularFile" "resolve_step (arg_step a) = Inr k" "0 < arg_destroy a"
    "(if arg_no_backup a then ask_yes_no (Some False) (stdin w) else (Inr True, stdin w)) = (Inr True, rs)"
    "confirm_action rs = (Inr True, rs')"
  shows "cli_main ev a w = corrupt_file ev k (arg_destroy a) (\<not> arg_no_backup a) (w\<lparr>stdin := rs'\<rparr>)"
  using assms by (simp add: cli_main_def)

lemma main_of_front:
  "front_end ev how w = Some (r, w') \<Longrightarrow> main_program ev how w = Some (exit_status r, w')"
  by (simp add: main_program_def)

text \<open>
  Claim C6, as amended. A step literal of digits with a value below 1024 and the suffix
  \<^verbatim>\<open>B\<close>, such as \<^verbatim>\<open>512B\<close>, is accepted on the command line as a step of 0 KB.
  \<^verbatim>\<open>corrupt_file\<close> with a step of 0 raises \<^verbatim>\<open>ZeroDivisionError\<close> and leaves
  everything as it was: the division of line 127 comes before the backup of line 137.
  So a command-line run on a regular file with such a step, a positive destroy count
  and every prompt confirmed ends with status 1, no backup made and the file untouched.
\<close>
theorem zero_step_fails_before_backup:
  "resolve_step ''512B'' = Inr 0
   \<and> (\<forall>ds. ds \<noteq> [] \<and> list_all isdecimal ds \<and> decimal ds < 1024 \<longrightarrow>
         resolve_step (ds @ ''B'') = Inr 0)
   \<and> (\<forall>(ev::env) d mb (w::world). corrupt_file ev 0 d mb w = Some (Inl ZeroDivisionError, w))
   \<and> (\<forall>(ev::env) (a::args) (w::world) rs rs'.
         kind ev = RegularFile \<and> resolve_step (arg_step a) = Inr 0 \<and> 0 < arg_destroy a
         \<and> (if arg_no_backup a then ask_yes_no (Some False) (stdin w) else (Inr True, stdin w))
              = (Inr True, rs)
         \<and> confirm_action rs = (Inr True, rs') \<longrightarrow>
           cli_main ev a w = Some (Inl ZeroDivisionError, w\<lparr>stdin := rs'\<rparr>)
           \<and> main_program ev (Cli a) w = Some (1, w\<lparr>stdin := rs'\<rparr>))"
proof (intro conjI allI impI)
  have "decimal ''512'' < 2 ^ 53" by (simp add: digits_512)
  from resolve_digits_B [OF digits_512(1,2) this]
  show "resolve_step ''512B'' = Inr 0" by (simp add: digits_512)
next
  fix ds assume a: "ds \<noteq> [] \<and> list_all isdecimal ds \<and> decimal ds < 1024"
  then have "decimal ds < 2 ^ 53" by simp
  with a have "resolve_step (ds @ ''B'') = Inr (int (decimal ds) div 1024)"
    by (simp add: resolve_digits_B)
  with a show "resolve_step (ds @ ''B'') = Inr 0" by simp
next
  fix ev :: env and d mb and w :: world
  show "corrupt_file ev 0 d mb w = Some (Inl ZeroDivisionError, w)" by (rule corrupt_file_zero_step)
next
  fix ev :: env and a :: args and w :: world and rs rs'
  assume h: "kind ev = RegularFile \<and> resolve_step (arg_step a) = Inr 0 \<and> 0 < arg_destroy a
         \<and> (if arg_no_backup a then ask_yes_no (Some False) (stdin w) else (Inr True, stdin w))
              = (Inr True, rs)
         \<and> confirm_action rs = (Inr True, rs')"
  then have c: "cli_main ev a w = Some (Inl ZeroDivisionError, w\<lparr>stdin := rs'\<rparr>)"
    using cli_main_confirmed [of ev a 0 w rs rs'] by (simp add: corrupt_file_zero_step)
  then show "cli_main ev a w = Some (Inl ZeroDivisionError, w\<lparr>stdin := rs'\<rparr>)" .
  from c show "main_program ev (Cli a) w = Some (1, w\<lparr>stdin := rs'\<rparr>)"
    by (simp add: main_program_def front_end_def)
qed

text \<open>The literal \<^verbatim>\<open>1023B\<close>, and the run with \<^verbatim>\<open>-s 512B\<close> on a 3000-byte file.\<close>
theorem zero_step_fails_before_backup_witness:
  "''1023'' \<noteq> [] \<and> list_all isdecimal ''1023'' \<and> decimal ''1023'' < 1024
   \<and> resolve_step ''1023B'' = Inr 0
   \<and> kind quiet_env = RegularFile \<and> resolve_step (arg_step (sample_args ''512B'')) = Inr 0
   \<and> 0 < arg_destroy (sample_args ''512B'')
   \<and> (if arg_no_backup (sample_args ''512B'')
        then ask_yes_no (Some False) (stdin ((zero_file 3000)\<lparr>stdin := [Line ''y'']\<rparr>))
        else (Inr True, stdin ((zero_file 3000)\<lparr>stdin := [Line ''y'']\<rparr>))) = (Inr True, [Line ''y''])
   \<and> confirm_action [Line ''y''] = (Inr True, [])
   \<and> cli_main quiet_env (sample_args ''512B'') ((zero_file 3000)\<lparr>stdin := [Line ''y'']\<rparr>)
        = Some (Inl ZeroDivisionError, zero_file 3000)
   \<and> main_program quiet_env (Cli (sample_args ''512B'')) ((zero_file 3000)\<lparr>stdin := [Line ''y'']\<rparr>)
        = Some (1, zero_file 3000)
   \<and> backup (zero_file 3000) = None"
proof -
  note t = zero_step_fails_before_backup
  have d: "''1023'' \<noteq> [] \<and> list_all isdecimal ''1023'' \<and> decimal ''1023'' < 1024"
    by (simp add: isdecimal_def decimal_def digit_value_def)
  with t have r1: "resolve_step (''1023'' @ ''B'') = Inr 0" by blast
  from t have r2: "resolve_step (arg_step (sample_args ''512B'')) = Inr 0"
    by (simp add: sample_args_def)
  have k: "kind quiet_env = RegularFile" "0 < arg_destroy (sample_args ''512B'')"
    by (simp_all add: quiet_env_def sample_args_def)
  have p: "(if arg_no_backup (sample_args ''512B'')
        then ask_yes_no (Some False) (stdin ((zero_file 3000)\<lparr>stdin := [Line ''y'']\<rparr>))
        else (Inr True, stdin ((zero_file 3000)\<lparr>stdin := [Line ''y'']\<rparr>))) = (Inr True, [Line ''y''])"
    by (simp add: sample_args_def)
  have w: "(zero_file 3000)\<lparr>stdin := [Line ''y''], stdin := []\<rparr> = zero_file 3000"
    by (simp add: zero_file_def)
  from t k r2 p yes_confirms
  have "cli_main quiet_env (sample_args ''512B'') ((zero_file 3000)\<lparr>stdin := [Line ''y'']\<rparr>)
        = Some (Inl ZeroDivisionError, (zero_file 3000)\<lparr>stdin := [Line ''y''], stdin := []\<rparr>)
   \<and> main_program quiet_env (Cli (sample_args ''512B'')) ((zero_file 3000)\<lparr>stdin := [Line ''y'']\<rparr>)
        = Some (1, (zero_file 3000)\<lparr>stdin := [Line ''y''], stdin := []\<rparr>)"
    by blast
  then have "cli_main quiet_env (sample_args ''512B'') ((zero_file 3000)\<lparr>stdin := [Line ''y'']\<rparr>)
        = Some (Inl ZeroDivisionError, zero_file 3000)
   \<and> main_program quiet_env (Cli (sample_args ''512B'')) ((zero_file 3000)\<lparr>stdin := [Line ''y'']\<rparr>)
        = Some (1, zero_file 3000)"
    unfolding w .
  moreover have "backup (zero_file 3000) = None" by (simp add: zero_file_def)
  ultimately show ?thesis using d r1 r2 k p yes_confirms by simp
qed

lemma resolve_512B: "resolve_step ''512B'' = Inr 0"
proof -
  have "decimal ''512'' < 2 ^ 53" by (simp add: digits_512)
  from resolve_digits_B [OF digits_512(1,2) this] show ?thesis by (simp add: digits_512)
qed

lemma resolve_1KB: "resolve_step ''1KB'' = Inr 1"
proof -
  have d: "''1'' \<noteq> []" "list_all isdecimal ''1''" "decimal ''1'' < 2 ^ 53" "decimal ''1'' = 1"
    by (simp_all add: isdecimal_def decimal_def digit_value_def)
  from resolve_digits_KB [OF d(1,2,3)] show ?thesis by (simp add: d(4))
qed

lemma quiet_kind: "kind quiet_env = RegularFile"
  by (simp add: quiet_env_def)

lemma cli_sample_confirmed:
  assumes "resolve_step s = Inr k" "kind ev = RegularFile"
  shows "cli_main ev (sample_args s) ((zero_file n)\<lparr>stdin := [Line ''y'']\<rparr>)
           = corrupt_file ev k 4 True (zero_file n)"
proof -
  have w: "(zero_file n)\<lparr>stdin := [Line ''y''], stdin := []\<rparr> = zero_file n"
    by (simp add: zero_file_def)
  have "cli_main ev (sample_args s) ((zero_file n)\<lparr>stdin := [Line ''y'']\<rparr>)
      = corrupt_file ev k (arg_destroy (sample_args s)) (\<not> arg_no_backup (sample_args s))
          ((zero_file n)\<lparr>stdin := [Line ''y''], stdin := []\<rparr>)"
    by (rule cli_main_confirmed [where rs = "[Line ''y'']"])
       (simp_all add: sample_args_def assms yes_confirms)
  then show ?thesis unfolding w by (simp add: sample_args_def)
qed

text \<open>
  Claim C6 as stated fails: with \<^verbatim>\<open>-s 512B\<close> and the backup enabled, the run ends
  in \<^verbatim>\<open>ZeroDivisionError\<close> and there is no backup.
\<close>
theorem zero_step_counterexample:
  "resolve_step ''512B'' = Inr 0
   \<and> \<not> arg_no_backup (sample_args ''512B'')
   \<and> cli_main quiet_env (sample_args ''512B'') ((zero_file 3000)\<lparr>stdin := [Line ''y'']\<rparr>)
        = Some (Inl ZeroDivisionError, zero_file 3000)
   \<and> backup (zero_file 3000) = None"
  by (simp add: resolve_512B cli_sample_confirmed [OF resolve_512B quiet_kind] corrupt_file_zero_step)
     (simp add: sample_args_def zero_file_def)

text \<open>
  Claim C5. On a file of exactly 2048 bytes \<^verbatim>\<open>corrupt_file\<close> raises nothing: it
  writes the backup, walks zero steps and returns normally, and the command-line run
  ends with status 0.
\<close>
theorem small_file_accepted:
  "corrupt_file quiet_env 1 4 True (zero_file 2048)
     = Some (Inr (), (zero_file 2048)\<lparr>backup := Some (replicate 2048 0)\<rparr>)
   \<and> main_program quiet_env (Cli (sample_args ''1KB'')) ((zero_file 2048)\<lparr>stdin := [Line ''y'']\<rparr>)
     = Some (0, (zero_file 2048)\<lparr>backup := Some (replicate 2048 0)\<rparr>)"
proof -
  have c: "corrupt_file quiet_env 1 4 True (zero_file 2048)
     = Some (Inr (), (zero_file 2048)\<lparr>backup := Some (replicate 2048 0)\<rparr>)"
    by (simp add: corrupt_file_def walk_file_def total_steps_def quiet_env_def zero_file_def)
  then show ?thesis
    by (simp add: main_program_def front_end_def cli_sample_confirmed [OF resolve_1KB quiet_kind])
qed

lemma cli_declined_no_backup:
  assumes "kind ev = RegularFile" "resolve_step (arg_step a) = Inr k" "0 < arg_destroy a"
    "arg_no_backup a" "ask_yes_no (Some False) (stdin w) = (r, rs)" "r \<noteq> Inr True"
  shows "cli_main ev a w = Some (case r of Inl e \<Rightarrow> Inl e | Inr b \<Rightarrow> Inl (SystemExit 0), w\<lparr>stdin := rs\<rparr>)"
  using assms by (cases r) (auto simp: cli_main_def)

lemma cli_declined_summary:
  assumes "kind ev = RegularFile" "resolve_step (arg_step a) = Inr k" "0 < arg_destroy a"
    "(if arg_no_backup a then ask_yes_no (Some False) (stdin w) else (Inr True, stdin w)) = (Inr True, rs)"
    "confirm_action rs = (r, rs')" "r \<noteq> Inr True"
  shows "cli_main ev a w = Some (case r of Inl e \<Rightarrow> Inl e | Inr b \<Rightarrow> Inl (SystemExit 0), w\<lparr>stdin := rs'\<rparr>)"
  using assms by (cases r) (auto simp: cli_main_def)

lemma corrupt_file_declined:
  assumes "step_kb \<noteq> 0" "copy_fails ev" "ask_yes_no (Some False) (stdin w) = (Inr False, rs)"
  shows "corrupt_file ev step_kb d True w = Some (Inr (), w\<lparr>stdin := rs\<rparr>)"
  using assms by (simp add: corrupt_file_def)

lemma interactive_body_summary:
  assumes "stdin w = Line p # Line s # Line d # Line b # rs"
    "strip_chars is_quote_or_space p \<noteq> []" "kind ev = RegularFile"
    "interactive_step (py_strip s) = Inr k" "interactive_destroy (py_strip d) = Inr n"
    "confirm_action rs = (r, rs')" "r \<noteq> Inr True"
  shows "interactive_body ev w = Some (case r of Inl e \<Rightarrow> Inl e | Inr b \<Rightarrow> Inr (), w\<lparr>stdin := rs'\<rparr>)"
  using assms by (cases r) (auto simp: interactive_body_def Let_def)

lemma interactive_interrupt_first:
  "stdin w = CtrlC # rs \<Longrightarrow> interactive_mode ev w = Some (Inl KeyboardInterrupt, w\<lparr>stdin := rs\<rparr>)"
  by (simp add: interactive_mode_def interactive_body_def)

lemma exit_status_Exception: "is_Exception e \<Longrightarrow> exit_status (Inl e) = 1"
  by (cases e) simp_all

lemma interactive_body_bad_path:
  assumes "stdin w = Line p # rs"
    "strip_chars is_quote_or_space p = [] \<or> kind ev \<noteq> RegularFile"
  shows "\<exists>e. is_Exception e \<and> interactive_body ev w = Some (Inl e, w\<lparr>stdin := rs\<rparr>)"
proof (cases "strip_chars is_quote_or_space p = []")
  case True
  with assms(1) have "interactive_body ev w = Some (Inl ValueError, w\<lparr>stdin := rs\<rparr>)"
    by (simp add: interactive_body_def)
  then show ?thesis by (intro exI [of _ ValueError]) simp
next
  case False
  with assms(2) have k: "kind ev \<noteq> RegularFile" by simp
  show ?thesis
  proof (cases "kind ev = Missing")
    case True
    with False assms(1) have "interactive_body ev w = Some (Inl FileNotFoundError, w\<lparr>stdin := rs\<rparr>)"
      by (simp add: interactive_body_def)
    then show ?thesis by (intro exI [of _ FileNotFoundError]) simp
  next
    case m: False
    with False k assms(1) have "interactive_body ev w = Some (Inl ValueError, w\<lparr>stdin := rs\<rparr>)"
      by (simp add: interactive_body_def)
    then show ?thesis by (intro exI [of _ ValueError]) simp
  qed
qed

lemma interactive_body_bad_step:
  assumes "stdin w = Line p # Line s # rs"
    "strip_chars is_quote_or_space p \<noteq> []" "kind ev = RegularFile"
    "interactive_step (py_strip s) = Inl e"
  shows "interactive_body ev w = Some (Inl e, w\<lparr>stdin := rs\<rparr>)"
  using assms by (simp add: interactive_body_def)

lemma interactive_step_error: "interactive_step s = Inl e \<Longrightarrow> e = ValueError"
  by (auto simp: interactive_step_def split: if_splits sum.splits)

lemma interactive_destroy_error: "interactive_destroy s = Inl e \<Longrightarrow> e = ValueError"
  by (auto simp: interactive_destroy_def split: if_splits sum.splits)

lemma interactive_body_bad_destroy:
  assumes "stdin w = Line p # Line s # Line d # rs"
    "strip_chars is_quote_or_space p \<noteq> []" "kind ev = RegularFile"
    "interactive_step (py_strip s) = Inr k" "interactive_destroy (py_strip d) = Inl e"
  shows "interactive_body ev w = Some (Inl e, w\<lparr>stdin := rs\<rparr>)"
  using assms by (simp add: interactive_body_def)

lemma interactive_body_confirmed:
  assumes "stdin w = Line p # Line s # Line d # Line b # rs"
    "strip_chars is_quote_or_space p \<noteq> []" "kind ev = RegularFile"
    "interactive_step (py_strip s) = Inr k" "interactive_destroy (py_strip d) = Inr n"
    "confirm_action rs = (Inr True, rs')"
  shows "interactive_body ev w
     = corrupt_file ev k n (\<not> (py_lower (py_strip b) = ''y'' \<or> py_lower (py_strip b) = ''yes''))
         (w\<lparr>stdin := rs'\<rparr>)"
  using assms by (simp add: interactive_body_def Let_def)

lemma interactive_body_interrupts:
  assumes "strip_chars is_quote_or_space p \<noteq> []" "kind ev = RegularFile"
  shows "stdin w = Line p # CtrlC # rs \<Longrightarrow>
           interactive_body ev w = Some (Inl KeyboardInterrupt, w\<lparr>stdin := rs\<rparr>)"
    and "stdin w = Line p # Line s # CtrlC # rs \<Longrightarrow> interactive_step (py_strip s) = Inr k \<Longrightarrow>
           interactive_body ev w = Some (Inl KeyboardInterrupt, w\<lparr>stdin := rs\<rparr>)"
    and "stdin w = Line p # Line s # Line d # CtrlC # rs \<Longrightarrow> interactive_step (py_strip s) = Inr k \<Longrightarrow>
           interactive_destroy (py_strip d) = Inr n \<Longrightarrow>
           interactive_body ev w = Some (Inl KeyboardInterrupt, w\<lparr>stdin := rs\<rparr>)"
    and "stdin w = Line p # Line s # Line d # Line b # rs \<Longrightarrow> interactive_step (py_strip s) = Inr k \<Longrightarrow>
           interactive_destroy (py_strip d) = Inr n \<Longrightarrow>
           confirm_action rs = (Inl KeyboardInterrupt, rs') \<Longrightarrow>
           interactive_body ev w = Some (Inl KeyboardInterrupt, w\<lparr>stdin := rs'\<rparr>)"
  using assms by (simp_all add: interactive_body_def Let_def)

lemma main_of_interactive_body:
  assumes "interactive_body ev w = Some (r, w')"
  shows "main_program ev Interactive w
     = Some (case r of Inr u \<Rightarrow> 0 | Inl e \<Rightarrow> if is_Exception e then 1 else exit_status (Inl e), w')"
  using assms by (cases r) (simp_all add: main_program_def front_end_def interactive_mode_def)

text \<open>
  Claim C10, as amended. The exit status is 0 when the user declines a prompt: the
  warning of \<^verbatim>\<open>--no-backup\<close>, the summary of either front end, or, in either front
  end, the question after a failed backup. The exit status is 1 when
  \<^verbatim>\<open>KeyboardInterrupt\<close> leaves the front end, as it does from both prompts of the
  command line and from the four questions and the summary of the interactive mode. 1 is also the status of a
  path that is not a regular file, of a step or a destroy count that is refused, in
  either front end, and of every other exception that leaves the front end or the body
  of the interactive mode. A command line that the argument parser refuses ends with
  status 2.
\<close>
theorem cancellation_exit_status:
  "(\<forall>(ev::env) (a::args) (w::world) k rs.
      kind ev = RegularFile \<and> resolve_step (arg_step a) = Inr k \<and> 0 < arg_destroy a
      \<and> arg_no_backup a \<and> ask_yes_no (Some False) (stdin w) = (Inr False, rs) \<longrightarrow>
        main_program ev (Cli a) w = Some (0, w\<lparr>stdin := rs\<rparr>))
   \<and> (\<forall>(ev::env) (a::args) (w::world) k rs rs'.
      kind ev = RegularFile \<and> resolve_step (arg_step a) = Inr k \<and> 0 < arg_destroy a
      \<and> (if arg_no_backup a then ask_yes_no (Some False) (stdin w) else (Inr True, stdin w))
           = (Inr True, rs)
      \<and> confirm_action rs = (Inr False, rs') \<longrightarrow>
        main_program ev (Cli a) w = Some (0, w\<lparr>stdin := rs'\<rparr>))
   \<and> (\<forall>(ev::env) (a::args) (w::world) k rs rs'.
      kind ev = RegularFile \<and> resolve_step (arg_step a) = Inr k \<and> k \<noteq> 0 \<and> 0 < arg_destroy a
      \<and> \<not> arg_no_backup a \<and> confirm_action (stdin w) = (Inr True, rs)
      \<and> copy_fails ev \<and> ask_yes_no (Some False) rs = (Inr False, rs') \<longrightarrow>
        main_program ev (Cli a) w = Some (0, w\<lparr>stdin := rs'\<rparr>))
   \<and> (\<forall>(ev::env) (w::world) p s d b rs k n rs'.
      stdin w = Line p # Line s # Line d # Line b # rs
      \<and> strip_chars is_quote_or_space p \<noteq> [] \<and> kind ev = RegularFile
      \<and> interactive_step (py_strip s) = Inr k \<and> interactive_destroy (py_strip d) = Inr n
      \<and> confirm_action rs = (Inr False, rs') \<longrightarrow>
        main_program ev Interactive w = Some (0, w\<lparr>stdin := rs'\<rparr>))
   \<and> (\<forall>(ev::env) how (w::world) w'.
      front_end ev how w = Some (Inl KeyboardInterrupt, w') \<longrightarrow>
        main_program ev how w = Some (1, w'))
   \<and> (\<forall>(ev::env) (a::args) (w::world) k rs rs'.
      kind ev = RegularFile \<and> resolve_step (arg_step a) = Inr k \<and> 0 < arg_destroy a
      \<and> (if arg_no_backup a then ask_yes_no (Some False) (stdin w) else (Inr True, stdin w))
           = (Inr True, rs)
      \<and> confirm_action rs = (Inl KeyboardInterrupt, rs') \<longrightarrow>
        main_program ev (Cli a) w = Some (1, w\<lparr>stdin := rs'\<rparr>))
   \<and> (\<forall>(ev::env) (w::world) rs.
      stdin w = CtrlC # rs \<longrightarrow> main_program ev Interactive w = Some (1, w\<lparr>stdin := rs\<rparr>))
   \<and> (\<forall>(ev::env) (a::args) (w::world).
      kind ev \<noteq> RegularFile \<longrightarrow> main_program ev (Cli a) w = Some (1, w))
   \<and> (\<forall>(ev::env) how (w::world) w' e.
      front_end ev how w = Some (Inl e, w') \<and> is_Exception e \<longrightarrow>
        main_program ev how w = Some (1, w'))
   \<and> (\<forall>(ev::env) (a::args) (w::world) e.
      kind ev = RegularFile \<and> resolve_step (arg_step a) = Inl e \<longrightarrow>
        main_program ev (Cli a) w = Some (1, w))
   \<and> (\<forall>(ev::env) (a::args) (w::world) k.
      kind ev = RegularFile \<and> resolve_step (arg_step a) = Inr k \<and> arg_destroy a \<le> 0 \<longrightarrow>
        main_program ev (Cli a) w = Some (1, w))
   \<and> (\<forall>(ev::env) (w::world). main_program ev CliRejected w = Some (2, w))
   \<and> (\<forall>(ev::env) (a::args) (w::world) k rs.
      kind ev = RegularFile \<and> resolve_step (arg_step a) = Inr k \<and> 0 < arg_destroy a
      \<and> arg_no_backup a \<and> ask_yes_no (Some False) (stdin w) = (Inl KeyboardInterrupt, rs) \<longrightarrow>
        main_program ev (Cli a) w = Some (1, w\<lparr>stdin := rs\<rparr>))
   \<and> (\<forall>(ev::env) (w::world) w' e.
      interactive_body ev w = Some (Inl e, w') \<and> (is_Exception e \<or> e = KeyboardInterrupt) \<longrightarrow>
        main_program ev Interactive w = Some (1, w'))
   \<and> (\<forall>(ev::env) (w::world) p rs.
      stdin w = Line p # rs
      \<and> (strip_chars is_quote_or_space p = [] \<or> kind ev \<noteq> RegularFile) \<longrightarrow>
        main_program ev Interactive w = Some (1, w\<lparr>stdin := rs\<rparr>))
   \<and> (\<forall>(ev::env) (w::world) p s rs e.
      stdin w = Line p # Line s # rs
      \<and> strip_chars is_quote_or_space p \<noteq> [] \<and> kind ev = RegularFile
      \<and> interactive_step (py_strip s) = Inl e \<longrightarrow>
        main_program ev Interactive w = Some (1, w\<lparr>stdin := rs\<rparr>))
   \<and> (\<forall>(ev::env) (w::world) p s d rs k e.
      stdin w = Line p # Line s # Line d # rs
      \<and> strip_chars is_quote_or_space p \<noteq> [] \<and> kind ev = RegularFile
      \<and> interactive_step (py_strip s) = Inr k \<and> interactive_destroy (py_strip d) = Inl e \<longrightarrow>
        main_program ev Interactive w = Some (1, w\<lparr>stdin := rs\<rparr>))
   \<and> (\<forall>(ev::env) (w::world) p s d b rs k n rs' rs''.
      stdin w = Line p # Line s # Line d # Line b # rs
      \<and> strip_chars is_quote_or_space p \<noteq> [] \<and> kind ev = RegularFile
      \<and> interactive_step (py_strip s) = Inr k \<and> k \<noteq> 0
      \<and> interactive_destroy (py_strip d) = Inr n
      \<and> \<not> (py_lower (py_strip b) = ''y'' \<or> py_lower (py_strip b) = ''yes'')
      \<and> confirm_action rs = (Inr True, rs')
      \<and> copy_fails ev \<and> ask_yes_no (Some False) rs' = (Inr False, rs'') \<longrightarrow>
        main_program ev Interactive w = Some (0, w\<lparr>stdin := rs''\<rparr>))
   \<and> (\<forall>(ev::env) (w::world) p rs.
      stdin w = Line p # CtrlC # rs
      \<and> strip_chars is_quote_or_space p \<noteq> [] \<and> kind ev = RegularFile \<longrightarrow>
        main_program ev Interactive w = Some (1, w\<lparr>stdin := rs\<rparr>))
   \<and> (\<forall>(ev::env) (w::world) p s rs k.
      stdin w = Line p # Line s # CtrlC # rs
      \<and> strip_chars is_quote_or_space p \<noteq> [] \<and> kind ev = RegularFile
      \<and> interactive_step (py_strip s) = Inr k \<longrightarrow>
        main_program ev Interactive w = Some (1, w\<lparr>stdin := rs\<rparr>))
   \<and> (\<forall>(ev::env) (w::world) p s d rs k n.
      stdin w = Line p # Line s # Line d # CtrlC # rs
      \<and> strip_chars is_quote_or_space p \<noteq> [] \<and> kind ev = RegularFile
      \<and> interactive_step (py_strip s) = Inr k \<and> interactive_destroy (py_strip d) = Inr n \<longrightarrow>
        main_program ev Interactive w = Some (1, w\<lparr>stdin := rs\<rparr>))
   \<and> (\<forall>(ev::env) (w::world) p s d b rs k n rs'.
      stdin w = Line p # Line s # Line d # Line b # rs
      \<and> strip_chars is_quote_or_space p \<noteq> [] \<and> kind ev = RegularFile
      \<and> interactive_step (py_strip s) = Inr k \<and> interactive_destroy (py_strip d) = Inr n
      \<and> confirm_action rs = (Inl KeyboardInterrupt, rs') \<longrightarrow>
        main_program ev Interactive w = Some (1, w\<lparr>stdin := rs'\<rparr>))"
proof (intro conjI allI impI)
  fix ev :: env and a :: args and w :: world and k rs
  assume "kind ev = RegularFile \<and> resolve_step (arg_step a) = Inr k \<and> 0 < arg_destroy a
      \<and> arg_no_backup a \<and> ask_yes_no (Some False) (stdin w) = (Inr False, rs)"
  then have "cli_main ev a w = Some (Inl (SystemExit 0), w\<lparr>stdin := rs\<rparr>)"
    using cli_declined_no_backup [of ev a k w "Inr False" rs] by simp
  then show "main_program ev (Cli a) w = Some (0, w\<lparr>stdin := rs\<rparr>)"
    by (simp add: main_program_def front_end_def)
next
  fix ev :: env and a :: args and w :: world and k rs rs'
  assume "kind ev = RegularFile \<and> resolve_step (arg_step a) = Inr k \<and> 0 < arg_destroy a
      \<and> (if arg_no_backup a then ask_yes_no (Some False) (stdin w) else (Inr True, stdin w))
           = (Inr True, rs)
      \<and> confirm_action rs = (Inr False, rs')"
  then have "cli_main ev a w = Some (Inl (SystemExit 0), w\<lparr>stdin := rs'\<rparr>)"
    using cli_declined_summary [of ev a k w rs "Inr False" rs'] by simp
  then show "main_program ev (Cli a) w = Some (0, w\<lparr>stdin := rs'\<rparr>)"
    by (simp add: main_program_def front_end_def)
next
  fix ev :: env and a :: args and w :: world and k rs rs'
  assume h: "kind ev = RegularFile \<and> resolve_step (arg_step a) = Inr k \<and> k \<noteq> 0 \<and> 0 < arg_destroy a
      \<and> \<not> arg_no_backup a \<and> confirm_action (stdin w) = (Inr True, rs)
      \<and> copy_fails ev \<and> ask_yes_no (Some False) rs = (Inr False, rs')"
  then have "cli_main ev a w = corrupt_file ev k (arg_destroy a) (\<not> arg_no_backup a) (w\<lparr>stdin := rs\<rparr>)"
    by (intro cli_main_confirmed [where rs = "stdin w"]) simp_all
  also have "\<dots> = Some (Inr (), w\<lparr>stdin := rs, stdin := rs'\<rparr>)"
    using h corrupt_file_declined [of k ev "w\<lparr>stdin := rs\<rparr>" rs' "arg_destroy a"] by simp
  finally show "main_program ev (Cli a) w = Some (0, w\<lparr>stdin := rs'\<rparr>)"
    by (simp add: main_program_def front_end_def)
next
  fix ev :: env and w :: world and p s d b rs k n rs'
  assume "stdin w = Line p # Line s # Line d # Line b # rs
      \<and> strip_chars is_quote_or_space p \<noteq> [] \<and> kind ev = RegularFile
      \<and> interactive_step (py_strip s) = Inr k \<and> interactive_destroy (py_strip d) = Inr n
      \<and> confirm_action rs = (Inr False, rs')"
  then have "interactive_body ev w = Some (Inr (), w\<lparr>stdin := rs'\<rparr>)"
    using interactive_body_summary [of w p s d b rs ev k n "Inr False" rs'] by simp
  then show "main_program ev Interactive w = Some (0, w\<lparr>stdin := rs'\<rparr>)"
    by (simp add: main_program_def front_end_def interactive_mode_def)
next
  fix ev :: env and how and w w' :: world
  assume "front_end ev how w = Some (Inl KeyboardInterrupt, w')"
  then show "main_program ev how w = Some (1, w')" by (simp add: main_program_def)
next
  fix ev :: env and a :: args and w :: world and k rs rs'
  assume "kind ev = RegularFile \<and> resolve_step (arg_step a) = Inr k \<and> 0 < arg_destroy a
      \<and> (if arg_no_backup a then ask_yes_no (Some False) (stdin w) else (Inr True, stdin w))
           = (Inr True, rs)
      \<and> confirm_action rs = (Inl KeyboardInterrupt, rs')"
  then have "cli_main ev a w = Some (Inl KeyboardInterrupt, w\<lparr>stdin := rs'\<rparr>)"
    using cli_declined_summary [of ev a k w rs "Inl KeyboardInterrupt" rs'] by simp
  then show "main_program ev (Cli a) w = Some (1, w\<lparr>stdin := rs'\<rparr>)"
    by (simp add: main_program_def front_end_def)
next
  fix ev :: env and w :: world and rs
  assume "stdin w = CtrlC # rs"
  then show "main_program ev Interactive w = Some (1, w\<lparr>stdin := rs\<rparr>)"
    by (simp add: main_program_def front_end_def interactive_interrupt_first)
next
  fix ev :: env and a :: args and w :: world
  assume "kind ev \<noteq> RegularFile"
  then show "main_program ev (Cli a) w = Some (1, w)"
    by (simp add: main_program_def front_end_def cli_main_def)
next
  fix ev :: env and how and w w' :: world and e
  assume "front_end ev how w = Some (Inl e, w') \<and> is_Exception e"
  then show "main_program ev how w = Some (1, w')"
    by (simp add: main_program_def exit_status_Exception)next
  fix ev :: env and a :: args and w :: world and e
  assume "kind ev = RegularFile \<and> resolve_step (arg_step a) = Inl e"
  then show "main_program ev (Cli a) w = Some (1, w)"
    by (simp add: main_program_def front_end_def cli_main_def)
next
  fix ev :: env and a :: args and w :: world and k
  assume "kind ev = RegularFile \<and> resolve_step (arg_step a) = Inr k \<and> arg_destroy a \<le> 0"
  then show "main_program ev (Cli a) w = Some (1, w)"
    by (simp add: main_program_def front_end_def cli_main_def)
next
  fix ev :: env and w :: world
  show "main_program ev CliRejected w = Some (2, w)"
    by (simp add: main_program_def front_end_def)
next
  fix ev :: env and a :: args and w :: world and k rs
  assume "kind ev = RegularFile \<and> resolve_step (arg_step a) = Inr k \<and> 0 < arg_destroy a
      \<and> arg_no_backup a \<and> ask_yes_no (Some False) (stdin w) = (Inl KeyboardInterrupt, rs)"
  then have "cli_main ev a w = Some (Inl KeyboardInterrupt, w\<lparr>stdin := rs\<rparr>)"
    using cli_declined_no_backup [of ev a k w "Inl KeyboardInterrupt" rs] by simp
  then show "main_program ev (Cli a) w = Some (1, w\<lparr>stdin := rs\<rparr>)"
    by (simp add: main_program_def front_end_def)
next
  fix ev :: env and w w' :: world and e
  assume "interactive_body ev w = Some (Inl e, w') \<and> (is_Exception e \<or> e = KeyboardInterrupt)"
  then show "main_program ev Interactive w = Some (1, w')"
    using main_of_interactive_body [of ev w "Inl e" w'] by auto
next
  fix ev :: env and w :: world and p rs
  assume "stdin w = Line p # rs
      \<and> (strip_chars is_quote_or_space p = [] \<or> kind ev \<noteq> RegularFile)"
  then obtain e where "is_Exception e" "interactive_body ev w = Some (Inl e, w\<lparr>stdin := rs\<rparr>)"
    using interactive_body_bad_path [of w p rs ev] by blast
  then show "main_program ev Interactive w = Some (1, w\<lparr>stdin := rs\<rparr>)"
    using main_of_interactive_body [of ev w "Inl e" "w\<lparr>stdin := rs\<rparr>"] by simp
next
  fix ev :: env and w :: world and p s rs e
  assume h: "stdin w = Line p # Line s # rs
      \<and> strip_chars is_quote_or_space p \<noteq> [] \<and> kind ev = RegularFile
      \<and> interactive_step (py_strip s) = Inl e"
  then have "interactive_body ev w = Some (Inl e, w\<lparr>stdin := rs\<rparr>)"
    using interactive_body_bad_step [of w p s rs ev e] by simp
  moreover from h have "e = ValueError" using interactive_step_error by blast
  ultimately show "main_program ev Interactive w = Some (1, w\<lparr>stdin := rs\<rparr>)"
    using main_of_interactive_body [of ev w "Inl e" "w\<lparr>stdin := rs\<rparr>"] by simp
next
  fix ev :: env and w :: world and p s d rs k e
  assume h: "stdin w = Line p # Line s # Line d # rs
      \<and> strip_chars is_quote_or_space p \<noteq> [] \<and> kind ev = RegularFile
      \<and> interactive_step (py_strip s) = Inr k \<and> interactive_destroy (py_strip d) = Inl e"
  then have "interactive_body ev w = Some (Inl e, w\<lparr>stdin := rs\<rparr>)"
    using interactive_body_bad_destroy [of w p s d rs ev k e] by simp
  moreover from h have "e = ValueError" using interactive_destroy_error by blast
  ultimately show "main_program ev Interactive w = Some (1, w\<lparr>stdin := rs\<rparr>)"
    using main_of_interactive_body [of ev w "Inl e" "w\<lparr>stdin := rs\<rparr>"] by simp
next
  fix ev :: env and w :: world and p s d b rs k n rs' rs''
  assume h: "stdin w = Line p # Line s # Line d # Line b # rs
      \<and> strip_chars is_quote_or_space p \<noteq> [] \<and> kind ev = RegularFile
      \<and> interactive_step (py_strip s) = Inr k \<and> k \<noteq> 0
      \<and> interactive_destroy (py_strip d) = Inr n
      \<and> \<not> (py_lower (py_strip b) = ''y'' \<or> py_lower (py_strip b) = ''yes'')
      \<and> confirm_action rs = (Inr True, rs')
      \<and> copy_fails ev \<and> ask_yes_no (Some False) rs' = (Inr False, rs'')"
  then have "interactive_body ev w
     = corrupt_file ev k n (\<not> (py_lower (py_strip b) = ''y'' \<or> py_lower (py_strip b) = ''yes''))
         (w\<lparr>stdin := rs'\<rparr>)"
    using interactive_body_confirmed [of w p s d b rs ev k n rs'] by simp
  also have "\<dots> = corrupt_file ev k n True (w\<lparr>stdin := rs'\<rparr>)" using h by simp
  also have "\<dots> = Some (Inr (), w\<lparr>stdin := rs', stdin := rs''\<rparr>)"
    using h corrupt_file_declined [of k ev "w\<lparr>stdin := rs'\<rparr>" rs'' n] by simp
  finally show "main_program ev Interactive w = Some (0, w\<lparr>stdin := rs''\<rparr>)"
    using main_of_interactive_body [of ev w "Inr ()" "w\<lparr>stdin := rs''\<rparr>"] by simp
next
  fix ev :: env and w :: world and p rs
  assume "stdin w = Line p # CtrlC # rs
      \<and> strip_chars is_quote_or_space p \<noteq> [] \<and> kind ev = RegularFile"
  then have "interactive_body ev w = Some (Inl KeyboardInterrupt, w\<lparr>stdin := rs\<rparr>)"
    using interactive_body_interrupts(1) [of p ev w rs] by simp
  then show "main_program ev Interactive w = Some (1, w\<lparr>stdin := rs\<rparr>)"
    using main_of_interactive_body [of ev w "Inl KeyboardInterrupt" "w\<lparr>stdin := rs\<rparr>"] by simp
next
  fix ev :: env and w :: world and p s rs k
  assume "stdin w = Line p # Line s # CtrlC # rs
      \<and> strip_chars is_quote_or_space p \<noteq> [] \<and> kind ev = RegularFile
      \<and> interactive_step (py_strip s) = Inr k"
  then have "interactive_body ev w = Some (Inl KeyboardInterrupt, w\<lparr>stdin := rs\<rparr>)"
    using interactive_body_interrupts(2) [of p ev w s rs k] by simp
  then show "main_program ev Interactive w = Some (1, w\<lparr>stdin := rs\<rparr>)"
    using main_of_interactive_body [of ev w "Inl KeyboardInterrupt" "w\<lparr>stdin := rs\<rparr>"] by simp
next
  fix ev :: env and w :: world and p s d rs k n
  assume "stdin w = Line p # Line s # Line d # CtrlC # rs
      \<and> strip_chars is_quote_or_space p \<noteq> [] \<and> kind ev = RegularFile
      \<and> interactive_step (py_strip s) = Inr k \<and> interactive_destroy (py_strip d) = Inr n"
  then have "interactive_body ev w = Some (Inl KeyboardInterrupt, w\<lparr>stdin := rs\<rparr>)"
    using interactive_body_interrupts(3) [of p ev w s d rs k n] by simp
  then show "main_program ev Interactive w = Some (1, w\<lparr>stdin := rs\<rparr>)"
    using main_of_interactive_body [of ev w "Inl KeyboardInterrupt" "w\<lparr>stdin := rs\<rparr>"] by simp
next
  fix ev :: env and w :: world and p s d b rs k n rs'
  assume "stdin w = Line p # Line s # Line d # Line b # rs
      \<and> strip_chars is_quote_or_space p \<noteq> [] \<and> kind ev = RegularFile
      \<and> interactive_step (py_strip s) = Inr k \<and> interactive_destroy (py_strip d) = Inr n
      \<and> confirm_action rs = (Inl KeyboardInterrupt, rs')"
  then have "interactive_body ev w = Some (Inl KeyboardInterrupt, w\<lparr>stdin := rs'\<rparr>)"
    using interactive_body_interrupts(4) [of p ev w s d b rs k n rs'] by simp
  then show "main_program ev Interactive w = Some (1, w\<lparr>stdin := rs'\<rparr>)"
    using main_of_interactive_body [of ev w "Inl KeyboardInterrupt" "w\<lparr>stdin := rs'\<rparr>"] by simp
qed

lemma interrupted_run:
  "corrupt_file interrupted_env 1 4 True (zero_file 3000) = Some (Inl KeyboardInterrupt, interrupted_result)"
  by (simp add: corrupt_file_def walk_file_def total_steps_def interrupted_env_def zero_file_def
      sample_plan Let_def interrupted_result_def)

lemma torn_backup_run:
  "corrupt_file torn_env 1 4 True (zero_file 3000)
     = Some (Inl OSError, torn_result\<lparr>backup := Some (replicate 3000 0)\<rparr>)"
  by (simp add: corrupt_file_def walk_file_def total_steps_def torn_env_def zero_file_def
      sample_plan sample_mutate f_read_def f_write_def Let_def torn_result_def)

lemma declined_copy_run:
  "corrupt_file failing_copy_env 1 4 True ((zero_file 3000)\<lparr>stdin := [Line ''n'']\<rparr>)
     = Some (Inr (), zero_file 3000)"
proof -
  have "corrupt_file failing_copy_env 1 4 True ((zero_file 3000)\<lparr>stdin := [Line ''n'']\<rparr>)
     = Some (Inr (), (zero_file 3000)\<lparr>stdin := [Line ''n''], stdin := []\<rparr>)"
    by (rule corrupt_file_declined) (simp_all add: failing_copy_env_def char_simps)
  then show ?thesis by (simp add: zero_file_def)
qed

lemma cli_two_answers:
  "cli_main failing_copy_env (sample_args ''1KB'') ((zero_file 3000)\<lparr>stdin := [Line ''y'', Line ''n'']\<rparr>)
     = Some (Inr (), zero_file 3000)"
proof -
  have c: "confirm_action [Line ''y'', Line ''n''] = (Inr True, [Line ''n''])"
    by (simp add: confirm_action_def char_simps)
  have "cli_main failing_copy_env (sample_args ''1KB'') ((zero_file 3000)\<lparr>stdin := [Line ''y'', Line ''n'']\<rparr>)
     = corrupt_file failing_copy_env 1 (arg_destroy (sample_args ''1KB'')) (\<not> arg_no_backup (sample_args ''1KB''))
         ((zero_file 3000)\<lparr>stdin := [Line ''y'', Line ''n''], stdin := [Line ''n'']\<rparr>)"
    by (rule cli_main_confirmed [where rs = "[Line ''y'', Line ''n'']"])
       (simp_all add: failing_copy_env_def sample_args_def resolve_1KB c)
  then show ?thesis using declined_copy_run by (simp add: sample_args_def)
qed

lemma cli_interrupt_summary:
  "cli_main quiet_env (sample_args ''1KB'') ((zero_file 3000)\<lparr>stdin := [CtrlC]\<rparr>)
     = Some (Inl KeyboardInterrupt, zero_file 3000)"
proof -
  have "cli_main quiet_env (sample_args ''1KB'') ((zero_file 3000)\<lparr>stdin := [CtrlC]\<rparr>)
     = Some (case Inl KeyboardInterrupt of Inl e \<Rightarrow> Inl e | Inr b \<Rightarrow> Inl (SystemExit 0),
             (zero_file 3000)\<lparr>stdin := [CtrlC], stdin := []\<rparr>)"
    using cli_declined_summary [of quiet_env "sample_args ''1KB''" 1
        "(zero_file 3000)\<lparr>stdin := [CtrlC]\<rparr>" "[CtrlC]" "Inl KeyboardInterrupt" "[]"]
    by (simp add: quiet_kind sample_args_def resolve_1KB confirm_action_def)
  then show ?thesis by (simp add: zero_file_def)
qed

text \<open>
  Claim C10 as stated fails: an interrupt at the summary prompt ends the run with status
  1, and declining to go on after a failed backup ends it with status 0.
\<close>
theorem cancellation_counterexample:
  "main_program quiet_env (Cli (sample_args ''1KB'')) ((zero_file 3000)\<lparr>stdin := [CtrlC]\<rparr>)
     = Some (1, zero_file 3000)
   \<and> main_program failing_copy_env (Cli (sample_args ''1KB''))
       ((zero_file 3000)\<lparr>stdin := [Line ''y'', Line ''n'']\<rparr>)
     = Some (0, zero_file 3000)"
  by (simp add: main_program_def front_end_def cli_interrupt_summary cli_two_answers)

text \<open>
  Declining the summary on the command line, an interrupt at the first interactive
  prompt, an interrupt during the first step of the walk, a write that fails in the first
  step, the step \<^verbatim>\<open>1MB\<close>, an interactive run whose backup fails and is not
  overridden, and an interrupt at the third interactive question.
\<close>
theorem cancellation_exit_status_witness:
  "kind quiet_env = RegularFile
   \<and> resolve_step (arg_step (sample_args ''1KB'')) = Inr 1
   \<and> 0 < arg_destroy (sample_args ''1KB'')
   \<and> confirm_action [Line ''n''] = (Inr False, [])
   \<and> main_program quiet_env (Cli (sample_args ''1KB'')) ((zero_file 3000)\<lparr>stdin := [Line ''n'']\<rparr>)
        = Some (0, zero_file 3000)
   \<and> main_program quiet_env Interactive ((zero_file 3000)\<lparr>stdin := [CtrlC]\<rparr>)
        = Some (1, zero_file 3000)
   \<and> front_end interrupted_env (Cli (sample_args ''1KB'')) ((zero_file 3000)\<lparr>stdin := [Line ''y'']\<rparr>)
        = Some (Inl KeyboardInterrupt, interrupted_result)
   \<and> main_program interrupted_env (Cli (sample_args ''1KB'')) ((zero_file 3000)\<lparr>stdin := [Line ''y'']\<rparr>)
        = Some (1, interrupted_result)
   \<and> front_end torn_env (Cli (sample_args ''1KB'')) ((zero_file 3000)\<lparr>stdin := [Line ''y'']\<rparr>)
        = Some (Inl OSError, torn_result\<lparr>backup := Some (replicate 3000 0)\<rparr>)
   \<and> is_Exception OSError
   \<and> main_program torn_env (Cli (sample_args ''1KB'')) ((zero_file 3000)\<lparr>stdin := [Line ''y'']\<rparr>)
        = Some (1, torn_result\<lparr>backup := Some (replicate 3000 0)\<rparr>)
   \<and> resolve_step (arg_step (sample_args ''1MB'')) = Inl ValueError
   \<and> main_program quiet_env (Cli (sample_args ''1MB'')) (zero_file 3000) = Some (1, zero_file 3000)
   \<and> kind failing_copy_env = RegularFile \<and> copy_fails failing_copy_env
   \<and> strip_chars is_quote_or_space ''f'' \<noteq> []
   \<and> interactive_step (py_strip []) = Inr 1 \<and> interactive_destroy (py_strip []) = Inr 4
   \<and> py_lower (py_strip []) \<noteq> ''y'' \<and> py_lower (py_strip []) \<noteq> ''yes''
   \<and> confirm_action [Line ''y'', Line ''n''] = (Inr True, [Line ''n''])
   \<and> ask_yes_no (Some False) [Line ''n''] = (Inr False, [])
   \<and> main_program failing_copy_env Interactive
        ((zero_file 3000)\<lparr>stdin := [Line ''f'', Line [], Line [], Line [], Line ''y'', Line ''n'']\<rparr>)
        = Some (0, zero_file 3000)
   \<and> main_program quiet_env Interactive ((zero_file 3000)\<lparr>stdin := [Line ''f'', Line [], CtrlC]\<rparr>)
        = Some (1, zero_file 3000)"
proof -
  note t = cancellation_exit_status
  have w: "\<And>rs. (zero_file 3000)\<lparr>stdin := rs, stdin := []\<rparr> = zero_file 3000"
    by (simp add: zero_file_def)
  have h: "kind quiet_env = RegularFile" "resolve_step (arg_step (sample_args ''1KB'')) = Inr 1"
    "0 < arg_destroy (sample_args ''1KB'')"
    by (simp_all add: quiet_kind sample_args_def resolve_1KB)
  have p: "(if arg_no_backup (sample_args ''1KB'')
        then ask_yes_no (Some False) (stdin ((zero_file 3000)\<lparr>stdin := [Line ''n'']\<rparr>))
        else (Inr True, stdin ((zero_file 3000)\<lparr>stdin := [Line ''n'']\<rparr>))) = (Inr True, [Line ''n''])"
    by (simp add: sample_args_def)
  note t2 = t [THEN conjunct2, THEN conjunct1, rule_format]
  have "main_program quiet_env (Cli (sample_args ''1KB'')) ((zero_file 3000)\<lparr>stdin := [Line ''n'']\<rparr>)
        = Some (0, (zero_file 3000)\<lparr>stdin := [Line ''n''], stdin := []\<rparr>)"
    by (rule t2 [where k = 1 and rs = "[Line ''n'']"]) (use h p no_declines in simp)
  then have a: "main_program quiet_env (Cli (sample_args ''1KB'')) ((zero_file 3000)\<lparr>stdin := [Line ''n'']\<rparr>)
        = Some (0, zero_file 3000)"
    unfolding w .
  have "stdin ((zero_file 3000)\<lparr>stdin := [CtrlC]\<rparr>) = CtrlC # []" by simp
  note t7 = t [THEN conjunct2, THEN conjunct2, THEN conjunct2, THEN conjunct2, THEN conjunct2,
      THEN conjunct2, THEN conjunct1, rule_format]
  have "main_program quiet_env Interactive ((zero_file 3000)\<lparr>stdin := [CtrlC]\<rparr>)
        = Some (1, (zero_file 3000)\<lparr>stdin := [CtrlC], stdin := []\<rparr>)"
    by (rule t7) simp
  then have b: "main_program quiet_env Interactive ((zero_file 3000)\<lparr>stdin := [CtrlC]\<rparr>)
        = Some (1, zero_file 3000)"
    unfolding w .
  have k: "kind interrupted_env = RegularFile" by (simp add: interrupted_env_def)
  have f: "front_end interrupted_env (Cli (sample_args ''1KB'')) ((zero_file 3000)\<lparr>stdin := [Line ''y'']\<rparr>)
        = Some (Inl KeyboardInterrupt, interrupted_result)"
    by (simp add: front_end_def cli_sample_confirmed [OF resolve_1KB k] interrupted_run)
  note t5 = t [THEN conjunct2, THEN conjunct2, THEN conjunct2, THEN conjunct2, THEN conjunct1,
      rule_format]
  have c: "main_program interrupted_env (Cli (sample_args ''1KB'')) ((zero_file 3000)\<lparr>stdin := [Line ''y'']\<rparr>)
        = Some (1, interrupted_result)"
    by (rule t5 [OF f])
  have kt: "kind torn_env = RegularFile" by (simp add: torn_env_def)
  have ft: "front_end torn_env (Cli (sample_args ''1KB'')) ((zero_file 3000)\<lparr>stdin := [Line ''y'']\<rparr>)
        = Some (Inl OSError, torn_result\<lparr>backup := Some (replicate 3000 0)\<rparr>)"
    by (simp add: front_end_def cli_sample_confirmed [OF resolve_1KB kt] torn_backup_run)
  note t9 = t [THEN conjunct2, THEN conjunct2, THEN conjunct2, THEN conjunct2, THEN conjunct2,
      THEN conjunct2, THEN conjunct2, THEN conjunct2, THEN conjunct1, rule_format]
  have ct: "main_program torn_env (Cli (sample_args ''1KB'')) ((zero_file 3000)\<lparr>stdin := [Line ''y'']\<rparr>)
        = Some (1, torn_result\<lparr>backup := Some (replicate 3000 0)\<rparr>)"
    by (rule t9 [where e = OSError]) (simp add: ft)
  note t10 = t [THEN conjunct2, THEN conjunct2, THEN conjunct2, THEN conjunct2, THEN conjunct2,
      THEN conjunct2, THEN conjunct2, THEN conjunct2, THEN conjunct2, THEN conjunct1, rule_format]
  note t18 = t [THEN conjunct2, THEN conjunct2, THEN conjunct2, THEN conjunct2, THEN conjunct2,
      THEN conjunct2, THEN conjunct2, THEN conjunct2, THEN conjunct2, THEN conjunct2,
      THEN conjunct2, THEN conjunct2, THEN conjunct2, THEN conjunct2, THEN conjunct2,
      THEN conjunct2, THEN conjunct2, THEN conjunct1, rule_format]
  note t20 = t [THEN conjunct2, THEN conjunct2, THEN conjunct2, THEN conjunct2, THEN conjunct2,
      THEN conjunct2, THEN conjunct2, THEN conjunct2, THEN conjunct2, THEN conjunct2,
      THEN conjunct2, THEN conjunct2, THEN conjunct2, THEN conjunct2, THEN conjunct2,
      THEN conjunct2, THEN conjunct2, THEN conjunct2, THEN conjunct2, THEN conjunct1, rule_format]
  have i1: "py_int ''1MB'' = Inl ValueError"
    by (simp add: py_int_def strip_chars_def int_space_def int_body_def isdecimal_def)
  have r1: "resolve_step (arg_step (sample_args ''1MB'')) = Inl ValueError"
    by (simp add: sample_args_def resolve_step_def size_to_kb_def i1 reject_examples)
  have m1: "main_program quiet_env (Cli (sample_args ''1MB'')) (zero_file 3000) = Some (1, zero_file 3000)"
    by (rule t10 [where e = ValueError]) (simp add: quiet_kind r1)
  have e: "kind failing_copy_env = RegularFile" "copy_fails failing_copy_env"
    "strip_chars is_quote_or_space ''f'' \<noteq> []"
    "interactive_step (py_strip []) = Inr 1" "interactive_destroy (py_strip []) = Inr 4"
    "py_lower (py_strip []) \<noteq> ''y''" "py_lower (py_strip []) \<noteq> ''yes''"
    by (simp_all add: failing_copy_env_def strip_chars_def is_quote_or_space_def py_strip_def
        interactive_step_def interactive_destroy_def py_lower_def)
  have c2: "confirm_action [Line ''y'', Line ''n''] = (Inr True, [Line ''n''])"
    by (simp add: confirm_action_def char_simps)
  have "main_program failing_copy_env Interactive
        ((zero_file 3000)\<lparr>stdin := [Line ''f'', Line [], Line [], Line [], Line ''y'', Line ''n'']\<rparr>)
        = Some (0, (zero_file 3000)\<lparr>stdin := [Line ''f'', Line [], Line [], Line [], Line ''y'', Line ''n''],
                      stdin := []\<rparr>)"
    by (rule t18 [where p = "''f''" and s = "[]" and d = "[]" and b = "[]"
          and rs = "[Line ''y'', Line ''n'']" and rs' = "[Line ''n'']" and k = 1 and n = 4])
       (use e c2 no_declines_backup in simp)
  then have m2: "main_program failing_copy_env Interactive
        ((zero_file 3000)\<lparr>stdin := [Line ''f'', Line [], Line [], Line [], Line ''y'', Line ''n'']\<rparr>)
        = Some (0, zero_file 3000)"
    unfolding w .
  have "main_program quiet_env Interactive ((zero_file 3000)\<lparr>stdin := [Line ''f'', Line [], CtrlC]\<rparr>)
        = Some (1, (zero_file 3000)\<lparr>stdin := [Line ''f'', Line [], CtrlC], stdin := []\<rparr>)"
    by (rule t20 [where p = "''f''" and s = "[]" and k = 1]) (use e h in simp)
  then have m3: "main_program quiet_env Interactive ((zero_file 3000)\<lparr>stdin := [Line ''f'', Line [], CtrlC]\<rparr>)
        = Some (1, zero_file 3000)"
    unfolding w .
  from h no_declines a b f c ft ct r1 m1 e c2 no_declines_backup m2 m3 show ?thesis by simp
qed

end
